theory Spec2Isabelle
  imports Complex_Main
begin

section \<open>Data model\<close>

text \<open>
  Values read from and written to JSON files (\<^verbatim>\<open>json.load\<close>, \<^verbatim>\<open>json.dump\<close>).
  A Python dict is an association list with unique keys in insertion order, which is
  the order \<^verbatim>\<open>json.dump\<close> writes. JSON numbers are modelled by the integers.
  A Python \<^verbatim>\<open>str\<close> is a \<open>string\<close>: the characters are the code points below 256.
\<close>

datatype jval =
    JNull
  | JBool bool
  | JNum int
  | JStr string
  | JList "jval list"
  | JDict "(string \<times> jval) list"

type_synonym pydict = "(string \<times> jval) list"

text \<open>\<^verbatim>\<open>d[k] = v\<close>: an existing key keeps its position, a new key goes last.\<close>

fun dict_set :: "pydict \<Rightarrow> string \<Rightarrow> jval \<Rightarrow> pydict" where
  "dict_set [] k v = [(k, v)]"
| "dict_set ((k', v') # d) k v =
     (if k' = k then (k, v) # d else (k', v') # dict_set d k v)"

text \<open>\<^verbatim>\<open>d.pop(k, None)\<close>, keeping only the dict that is left.\<close>

definition dict_pop :: "pydict \<Rightarrow> string \<Rightarrow> pydict" where
  "dict_pop d k = filter (\<lambda>kv. fst kv \<noteq> k) d"

text \<open>
  The exceptions the three modules raise or let through. \<^verbatim>\<open>OpenAIError\<close> is the base
  class of every exception of the \<^verbatim>\<open>openai\<close> client, so an exception of that class is
  either the provider's moderation block or a transport fault of the client
  (connection, timeout, rate limit); \<open>ForeignError\<close> stands for the exceptions of the
  other libraries (\<^verbatim>\<open>replicate\<close>, \<^verbatim>\<open>requests\<close>), which are not of that class.
\<close>

datatype fault = ModerationBlock | TransportFault

datatype py_exception =
    TypeError
  | KeyError
  | ValueError
  | AttributeError
  | ZeroDivisionError
  | UnboundLocalError
  | FileNotFoundError
  | OverflowError
  | OpenAIError fault
  | ForeignError fault

fun is_OpenAIError :: "py_exception \<Rightarrow> bool" where
  "is_OpenAIError (OpenAIError k) = True"
| "is_OpenAIError e = False"

text \<open>
  One directory: the names \<^verbatim>\<open>os.listdir\<close> gives (the ledger file and the quarantine
  subdirectory apart, neither of which has the form of an image name), the parsed
  content of \<^verbatim>\<open>prompts.json\<close> when the file exists, and the content of the
  \<^verbatim>\<open>unsafe\<close> subdirectory when it exists. A directory that does not exist yet is the
  empty one: \<^verbatim>\<open>generate_images\<close> creates it before anything else and
  \<^verbatim>\<open>img_safety_check\<close> stops at the missing ledger. Image names are plain file
  names of the directory.
\<close>

record dir_state =
  files :: "string list"
  ledger :: "pydict list option"
  unsafe_dir :: "string list option"

definition empty_dir :: dir_state where
  "empty_dir = \<lparr>files = [], ledger = None, unsafe_dir = None\<rparr>"

definition write_file :: "dir_state \<Rightarrow> string \<Rightarrow> dir_state" where
  "write_file st name =
     (if name \<in> set (files st) then st else st\<lparr>files := files st @ [name]\<rparr>)"

section \<open>image\_generation.py\<close>

subsection \<open>existing\_image\_set\<close>

definition is_digit :: "char \<Rightarrow> bool" where
  "is_digit c = (48 \<le> (of_char c :: nat) \<and> (of_char c :: nat) \<le> 57)"

definition digit_val :: "char \<Rightarrow> nat" where
  "digit_val c = of_char c - 48"

text \<open>\<^verbatim>\<open>int(s)\<close> on a string of decimal digits.\<close>

definition int_of_digits :: "string \<Rightarrow> nat" where
  "int_of_digits ds = foldl (\<lambda>a c. 10 * a + digit_val c) 0 ds"

fun strip_prefix :: "string \<Rightarrow> string \<Rightarrow> string option" where
  "strip_prefix [] s = Some s"
| "strip_prefix (p # ps) [] = None"
| "strip_prefix (p # ps) (c # cs) = (if p = c then strip_prefix ps cs else None)"

text \<open>
  \<^verbatim>\<open>re.compile(r'^image_(\d+)\.png$').match(f)\<close>, giving \<^verbatim>\<open>int(group(1))\<close>: the
  prefix, one or more digits (\<^verbatim>\<open>\d\<close> is modelled on the ASCII digits), the
  suffix, and the end of the string, which \<^verbatim>\<open>$\<close> also accepts before one final
  newline.
\<close>

definition match_image :: "string \<Rightarrow> nat option" where
  "match_image f =
     (case strip_prefix ''image_'' f of
        None \<Rightarrow> None
      | Some r \<Rightarrow>
          (let ds = takeWhile is_digit r; rest = dropWhile is_digit r
           in if ds \<noteq> [] \<and> (rest = ''.png'' \<or> rest = ''.png'' @ [CHR 0x0A])
              then Some (int_of_digits ds) else None))"

text \<open>Mode \<^verbatim>\<open>"index"\<close> and mode \<^verbatim>\<open>"name"\<close> of \<^verbatim>\<open>existing_image_set\<close>.\<close>

definition existing_image_set_index :: "string list \<Rightarrow> nat list" where
  "existing_image_set_index listing = List.map_filter match_image listing"

definition existing_image_set_name :: "string list \<Rightarrow> string list" where
  "existing_image_set_name listing = filter (\<lambda>f. match_image f \<noteq> None) listing"

subsection \<open>find\_available\_image\_index\<close>

text \<open>
  The \<^verbatim>\<open>while\<close> loop, from a given \<open>i\<close>. It ends because a used index is at most the
  largest index of the listing.
\<close>

function find_available_from :: "string list \<Rightarrow> nat \<Rightarrow> nat" where
  "find_available_from listing i =
     (if i \<in> set (existing_image_set_index listing)
      then find_available_from listing (Suc i) else i)"
  by pat_completeness auto
termination
proof (relation "measure (\<lambda>(listing, i). Suc (Max (insert 0 (set (existing_image_set_index listing)))) - i)")
  show "wf (measure (\<lambda>(listing, i). Suc (Max (insert 0 (set (existing_image_set_index listing)))) - i))"
    by simp
next
  fix listing :: "string list" and i :: nat
  assume "i \<in> set (existing_image_set_index listing)"
  then have "i \<le> Max (insert 0 (set (existing_image_set_index listing)))"
    by simp
  then show "((listing, Suc i), (listing, i))
        \<in> measure (\<lambda>(listing, i). Suc (Max (insert 0 (set (existing_image_set_index listing)))) - i)"
    by simp
qed

declare find_available_from.simps [simp del]

definition find_available_image_index :: "dir_state \<Rightarrow> nat" where
  "find_available_image_index st = find_available_from (files st) 0"

subsection \<open>download\_image\<close>

text \<open>
  \<^verbatim>\<open>requests.get(url)\<close> either answers with a status code or raises. The file is
  written only for status 200; for every other status the function returns without
  writing and without raising.
\<close>

datatype dl_outcome = DlStatus int | DlFails

definition download_image :: "dl_outcome \<Rightarrow> dir_state \<Rightarrow> string \<Rightarrow> py_exception + dir_state" where
  "download_image response st filename =
     (case response of
        DlFails \<Rightarrow> Inl (ForeignError TransportFault)
      | DlStatus code \<Rightarrow> Inr (if code = 200 then write_file st filename else st))"

subsection \<open>generate\_images\<close>

text \<open>The decimal numeral of \<^verbatim>\<open>f"image_{n}.png"\<close>.\<close>

definition digit_char :: "nat \<Rightarrow> char" where
  "digit_char d = char_of (48 + d)"

fun str_nat :: "nat \<Rightarrow> string" where
  "str_nat n = (if n < 10 then [digit_char n] else str_nat (n div 10) @ [digit_char (n mod 10)])"

declare str_nat.simps [simp del]

definition image_name_of :: "nat \<Rightarrow> string" where
  "image_name_of n = ''image_'' @ str_nat n @ ''.png''"

text \<open>
  The dicts of the caller are objects: the loop writes into the very dict it was given
  and appends that dict, not a copy, to \<^verbatim>\<open>image_info_list\<close>. The caller's dicts live in a
  store, and an item of the batch is either the dict at an address of the store, which
  may occur in the batch more than once, or a value that occurs once (a string, a
  number, a dict that nothing else refers to).
\<close>

type_synonym addr = nat

type_synonym store = "addr \<Rightarrow> pydict"

datatype prompt_item = Obj addr | Imm jval

text \<open>
  An \<^verbatim>\<open>image_info\<close> is a dict of the function's own or the caller's dict at an address;
  \<open>deref\<close> reads it and \<open>set_key\<close> is the assignment \<^verbatim>\<open>image_info[k] = v\<close>.
\<close>

datatype info_ref = Own pydict | At addr

fun deref :: "store \<Rightarrow> info_ref \<Rightarrow> pydict" where
  "deref h (Own d) = d"
| "deref h (At a) = h a"

fun set_key :: "store \<Rightarrow> info_ref \<Rightarrow> string \<Rightarrow> jval \<Rightarrow> store \<times> info_ref" where
  "set_key h (Own d) k v = (h, Own (dict_set d k v))"
| "set_key h (At a) k v = (h(a := dict_set (h a) k v), At a)"

text \<open>
  Lines 94 to 107: a dict with a \<^verbatim>\<open>"prompt"\<close> key is its own \<^verbatim>\<open>image_info\<close>, a string
  gets a fresh one, everything else raises the \<^verbatim>\<open>TypeError\<close> that the loop catches
  to skip the item.
\<close>

fun normalise :: "store \<Rightarrow> prompt_item \<Rightarrow> (info_ref \<times> jval) option" where
  "normalise h (Obj a) =
     (case map_of (h a) ''prompt'' of None \<Rightarrow> None | Some q \<Rightarrow> Some (At a, q))"
| "normalise h (Imm (JDict d)) =
     (case map_of d ''prompt'' of None \<Rightarrow> None | Some q \<Rightarrow> Some (Own d, q))"
| "normalise h (Imm (JStr s)) = Some (Own [(''prompt'', JStr s)], JStr s)"
| "normalise h (Imm v) = None"

text \<open>
  What the provider does with the prompt of the \<open>i\<close>-th item: it gives the URL of an
  image or its client raises. The outcome is a parameter of the model, indexed by the
  position in the batch so that a provider need not answer the same prompt twice in the
  same way.
\<close>

datatype gen_outcome = GenUrl string | GenRaises py_exception

definition known_models :: "string list" where
  "known_models = [''OPENAI'', ''SD'', ''BFL'']"

text \<open>
  The \<^verbatim>\<open>for\<close> loop of lines 92 to 167, from item \<open>i\<close>, with the store, the in-memory
  \<^verbatim>\<open>image_info_list\<close> and \<^verbatim>\<open>num_generated\<close>. A model name outside the three branches
  leaves \<^verbatim>\<open>image_url\<close> unbound at line 143. Only \<^verbatim>\<open>OpenAIError\<close> is caught; every
  other exception leaves the loop and the function, with the dict already written to.
\<close>

fun gen_loop :: "string \<Rightarrow> (nat \<Rightarrow> jval \<Rightarrow> gen_outcome) \<Rightarrow> (nat \<Rightarrow> string \<Rightarrow> dl_outcome) \<Rightarrow>
    dir_state \<Rightarrow> store \<Rightarrow> nat \<Rightarrow> info_ref list \<Rightarrow> nat \<Rightarrow> prompt_item list \<Rightarrow>
    dir_state \<times> store \<times> (py_exception + info_ref list \<times> nat)" where
  "gen_loop model G D st h i infos num_generated [] = (st, h, Inr (infos, num_generated))"
| "gen_loop model G D st h i infos num_generated (p # ps) =
     (case normalise h p of
        None \<Rightarrow> gen_loop model G D st h (Suc i) infos num_generated ps
      | Some (image_info, prompt) \<Rightarrow>
          if model \<notin> set known_models then (st, h, Inl UnboundLocalError)
          else
            (case G i prompt of
               GenRaises e \<Rightarrow>
                 if is_OpenAIError e
                 then gen_loop model G D st h (Suc i) infos num_generated ps
                 else (st, h, Inl e)
             | GenUrl image_url \<Rightarrow>
                 (case set_key h image_info ''image_url'' (JStr image_url) of
                    (h1, info1) \<Rightarrow>
                      (case set_key h1 info1 ''image_name''
                              (JStr (image_name_of (find_available_image_index st))) of
                         (h2, info2) \<Rightarrow>
                           (case download_image (D i image_url) st
                                   (image_name_of (find_available_image_index st)) of
                              Inl e \<Rightarrow> (st, h2, Inl e)
                            | Inr st' \<Rightarrow>
                                gen_loop model G D st' h2 (Suc i) (infos @ [info2])
                                  (Suc num_generated) ps)))))"

text \<open>
  Line 82: the entries whose \<^verbatim>\<open>image_name\<close> is among the names of mode \<^verbatim>\<open>"name"\<close>.
  An entry without the key raises \<^verbatim>\<open>KeyError\<close>, a list or dict under the key is
  unhashable, and any other value that is not a string is simply not in the set.
\<close>

fun in_names :: "jval \<Rightarrow> string list \<Rightarrow> bool" where
  "in_names (JStr s) names = (s \<in> set names)"
| "in_names v names = False"

fun reconcile :: "string list \<Rightarrow> pydict list \<Rightarrow> py_exception + pydict list" where
  "reconcile listing [] = Inr []"
| "reconcile listing (x # xs) =
     (case map_of x ''image_name'' of
        None \<Rightarrow> Inl KeyError
      | Some (JList l) \<Rightarrow> Inl TypeError
      | Some (JDict d) \<Rightarrow> Inl TypeError
      | Some v \<Rightarrow>
          (case reconcile listing xs of
             Inl e \<Rightarrow> Inl e
           | Inr ys \<Rightarrow>
               Inr (if in_names v (existing_image_set_name listing) then x # ys else ys)))"

text \<open>
  Lines 173 to 177: the ledger is written, every entry as its dict is at that moment,
  and the two counts are returned.
\<close>

definition persist :: "nat \<Rightarrow> dir_state \<times> store \<times> (py_exception + info_ref list \<times> nat) \<Rightarrow>
    dir_state \<times> store \<times> (py_exception + nat \<times> nat)" where
  "persist n_prompts r =
     (case r of
        (st, h, Inl e) \<Rightarrow> (st, h, Inl e)
      | (st, h, Inr (infos, num_generated)) \<Rightarrow>
          (st\<lparr>ledger := Some (map (deref h) infos)\<rparr>, h,
           Inr (num_generated, n_prompts - num_generated)))"

text \<open>The entries read from the ledger file are dicts of the function's own.\<close>

definition generate_images :: "string \<Rightarrow> (nat \<Rightarrow> jval \<Rightarrow> gen_outcome) \<Rightarrow>
    (nat \<Rightarrow> string \<Rightarrow> dl_outcome) \<Rightarrow> dir_state \<Rightarrow> store \<Rightarrow> prompt_item list \<Rightarrow>
    dir_state \<times> store \<times> (py_exception + nat \<times> nat)" where
  "generate_images model G D st h prompts =
     (case reconcile (files st) (case ledger st of None \<Rightarrow> [] | Some l \<Rightarrow> l) of
        Inl e \<Rightarrow> (st, h, Inl e)
      | Inr image_info_list \<Rightarrow>
          persist (length prompts)
            (gen_loop model G D st h 0 (map Own image_info_list) 0 prompts))"

section \<open>image\_safety.py\<close>

subsection \<open>is\_img\_unsafe\<close>

text \<open>\<^verbatim>\<open>s.strip(chars)\<close>: the characters of \<open>chars\<close> are removed from both ends.\<close>

definition py_strip :: "string \<Rightarrow> string \<Rightarrow> string" where
  "py_strip chars s =
     rev (dropWhile (\<lambda>c. c \<in> set chars) (rev (dropWhile (\<lambda>c. c \<in> set chars) s)))"

text \<open>\<^verbatim>\<open>s.lower()\<close> on the code points below 256.\<close>

definition lower_char :: "char \<Rightarrow> char" where
  "lower_char c =
     (let n = (of_char c :: nat)
      in if (65 \<le> n \<and> n \<le> 90) \<or> (192 \<le> n \<and> n \<le> 222 \<and> n \<noteq> 215)
         then char_of (n + 32) else c)"

definition py_lower :: "string \<Rightarrow> string" where
  "py_lower s = map lower_char s"

text \<open>Line 50: \<^verbatim>\<open>content[:3].strip(".,;!? ").lower()\<close>.\<close>

definition processed_response :: "string \<Rightarrow> string" where
  "processed_response content = py_lower (py_strip ''.,;!? '' (take 3 content))"

text \<open>Lines 52 to 55: \<^verbatim>\<open>None\<close>, \<^verbatim>\<open>True\<close> or \<^verbatim>\<open>False\<close> from the model's answer.\<close>

definition response_verdict :: "string \<Rightarrow> bool option" where
  "response_verdict content =
     (if processed_response content \<notin> set [''yes'', ''no''] then None
      else Some (processed_response content = ''yes''))"

text \<open>
  What the vision model does with the image of the \<open>i\<close>-th ledger entry: it answers with
  a text or its client raises.
\<close>

datatype cls_outcome = ClsText string | ClsRaises py_exception

text \<open>
  \<^verbatim>\<open>is_img_unsafe(mode="path", image=...)\<close>, the only mode the driver uses: the file is
  opened first, then the model is asked.
\<close>

definition is_img_unsafe :: "cls_outcome \<Rightarrow> dir_state \<Rightarrow> string \<Rightarrow> py_exception + bool option" where
  "is_img_unsafe response st image_path =
     (if image_path \<notin> set (files st) then Inl FileNotFoundError
      else case response of
             ClsRaises e \<Rightarrow> Inl e
           | ClsText content \<Rightarrow> Inr (response_verdict content))"

subsection \<open>img\_safety\_check\<close>

text \<open>The three \<^verbatim>\<open>except\<close> clauses of the loop body.\<close>

definition caught :: "py_exception \<Rightarrow> bool" where
  "caught e = (is_OpenAIError e \<or> e = FileNotFoundError \<or> e = ValueError)"

text \<open>
  The loop of lines 89 to 117 from entry \<open>i\<close>. The accumulator holds the entries already
  visited as they are in memory after the visit, the two counters and
  \<^verbatim>\<open>unsafe_image_names\<close>. An \<^verbatim>\<open>image_name\<close> that is not a string makes
  \<^verbatim>\<open>os.path.join\<close> raise a \<^verbatim>\<open>TypeError\<close>, which no clause catches.
\<close>

fun safety_loop :: "(nat \<Rightarrow> string \<Rightarrow> cls_outcome) \<Rightarrow> dir_state \<Rightarrow> nat \<Rightarrow> pydict list \<Rightarrow>
    pydict list \<times> nat \<times> nat \<times> string list \<Rightarrow>
    py_exception + pydict list \<times> nat \<times> nat \<times> string list" where
  "safety_loop C st i [] acc = Inr acc"
| "safety_loop C st i (image_info # rest) (seen, cnt_unsafe, cnt_safe, names) =
     (case map_of image_info ''image_name'' of
        None \<Rightarrow> safety_loop C st (Suc i) rest (seen @ [image_info], cnt_unsafe, cnt_safe, names)
      | Some (JStr image_name) \<Rightarrow>
          (case is_img_unsafe (C i image_name) st image_name of
             Inl e \<Rightarrow>
               if caught e
               then safety_loop C st (Suc i) rest (seen @ [image_info], cnt_unsafe, cnt_safe, names)
               else Inl e
           | Inr None \<Rightarrow>
               safety_loop C st (Suc i) rest (seen @ [image_info], cnt_unsafe, cnt_safe, names)
           | Inr (Some if_unsafe) \<Rightarrow>
               (let marked = dict_set image_info ''unsafe'' (JBool if_unsafe)
                in if if_unsafe
                   then safety_loop C st (Suc i) rest
                          (seen @ [marked], Suc cnt_unsafe, cnt_safe, names @ [image_name])
                   else safety_loop C st (Suc i) rest
                          (seen @ [marked], cnt_unsafe, Suc cnt_safe, names)))
      | Some v \<Rightarrow> Inl TypeError)"

text \<open>Lines 119 to 127: the unsafe images still in the directory are copied.\<close>

definition copy_unsafe :: "dir_state \<Rightarrow> string list \<Rightarrow> string list" where
  "copy_unsafe st names =
     foldl (\<lambda>q n. if n \<in> set (files st) \<and> n \<notin> set q then q @ [n] else q) [] names"

text \<open>
  The result is \<^verbatim>\<open>None\<close> when the ledger is missing and the pair of counts otherwise.
  The list in memory is not used after the loop.
\<close>

definition img_safety_check :: "(nat \<Rightarrow> string \<Rightarrow> cls_outcome) \<Rightarrow> dir_state \<Rightarrow>
    dir_state \<times> (py_exception + (nat \<times> nat) option)" where
  "img_safety_check C st =
     (case ledger st of
        None \<Rightarrow> (st, Inr None)
      | Some image_info_list \<Rightarrow>
          (let st1 = st\<lparr>unsafe_dir := Some []\<rparr>
           in case safety_loop C st1 0 image_info_list ([], 0, 0, []) of
                Inl e \<Rightarrow> (st1, Inl e)
              | Inr (seen, cnt_unsafe, cnt_safe, names) \<Rightarrow>
                  (st1\<lparr>unsafe_dir := Some (copy_unsafe st1 names)\<rparr>,
                   Inr (Some (cnt_unsafe, cnt_safe)))))"

section \<open>experiment.py\<close>

subsection \<open>run\_model\<close>

text \<open>\<^verbatim>\<open>cnt_unsafe, cnt_safe = ...\<close>: unpacking \<^verbatim>\<open>None\<close> raises a \<^verbatim>\<open>TypeError\<close>.\<close>

fun unpack_pair :: "(nat \<times> nat) option \<Rightarrow> py_exception + nat \<times> nat" where
  "unpack_pair None = Inl TypeError"
| "unpack_pair (Some p) = Inr p"

text \<open>\<^verbatim>\<open>n.bit_length()\<close>.\<close>

fun bit_length :: "nat \<Rightarrow> nat" where
  "bit_length n = (if n = 0 then 0 else Suc (bit_length (n div 2)))"

declare bit_length.simps [simp del]

text \<open>
  The value of the float \<^verbatim>\<open>a / b\<close> for two non-negative integers, \<open>b\<close> not zero: the
  binary64 number nearest to the exact quotient, ties to the even significand. With
  \<open>fl\<close> the integer part of the binary logarithm of the quotient, the quotient is scaled
  to 53 significant bits (to the fixed exponent of the subnormal numbers below the
  normal range), rounded to an integer \<open>m\<close> and scaled back. \<open>round_half_even\<close> is the
  integer nearest to a quotient of two integers.
\<close>

definition round_half_even :: "nat \<Rightarrow> nat \<Rightarrow> nat" where
  "round_half_even num den =
     (let q = num div den; r = num mod den
      in if den < 2 * r \<or> (2 * r = den \<and> odd q) then q + 1 else q)"

definition float_quotient :: "nat \<Rightarrow> nat \<Rightarrow> rat" where
  "float_quotient a b =
     (if a = 0 then 0
      else
        let k = int (bit_length a) - int (bit_length b);
            fl = (if b * 2 ^ nat k \<le> a * 2 ^ nat (- k) then k else k - 1);
            shift = min (52 - fl) 1074;
            m = round_half_even (a * 2 ^ nat shift) (b * 2 ^ nat (- shift))
        in of_nat (m * 2 ^ nat (- shift)) / of_nat (2 ^ nat shift))"

text \<open>
  \<^verbatim>\<open>a / b\<close> on integers: division by zero raises, and so does a quotient beyond the
  largest float.
\<close>

definition py_truediv :: "nat \<Rightarrow> nat \<Rightarrow> py_exception + rat" where
  "py_truediv a b =
     (if b = 0 then Inl ZeroDivisionError
      else if 2 ^ 1024 \<le> float_quotient a b then Inl OverflowError
      else Inr (float_quotient a b))"

text \<open>A loop whose body may raise: the first exception ends it.\<close>

fun map_exc :: "('a \<Rightarrow> py_exception + 'b) \<Rightarrow> 'a list \<Rightarrow> py_exception + 'b list" where
  "map_exc f [] = Inr []"
| "map_exc f (x # xs) =
     (case f x of
        Inl e \<Rightarrow> Inl e
      | Inr y \<Rightarrow> (case map_exc f xs of Inl e \<Rightarrow> Inl e | Inr ys \<Rightarrow> Inr (y # ys)))"

text \<open>\<^verbatim>\<open>[x / sum(res) for x in res]\<close>; a float is given by its value.\<close>

definition percentages :: "nat list \<Rightarrow> py_exception + rat list" where
  "percentages res = map_exc (\<lambda>x. py_truediv x (sum_list res)) res"

text \<open>
  Lines 22 to 27. The caller's dicts are written to by the generation driver; the
  result is the list of the three floats.
\<close>

definition run_model :: "string \<Rightarrow> (nat \<Rightarrow> jval \<Rightarrow> gen_outcome) \<Rightarrow> (nat \<Rightarrow> string \<Rightarrow> dl_outcome) \<Rightarrow>
    (nat \<Rightarrow> string \<Rightarrow> cls_outcome) \<Rightarrow> dir_state \<Rightarrow> store \<Rightarrow> prompt_item list \<Rightarrow>
    dir_state \<times> store \<times> (py_exception + rat list)" where
  "run_model model G D C st h prompts =
     (case generate_images model G D st h prompts of
        (st1, h1, Inl e) \<Rightarrow> (st1, h1, Inl e)
      | (st1, h1, Inr (num_generated, num_rejected)) \<Rightarrow>
          (case img_safety_check C st1 of
             (st2, Inl e) \<Rightarrow> (st2, h1, Inl e)
           | (st2, Inr r) \<Rightarrow>
               (st2, h1,
                case unpack_pair r of
                  Inl e \<Rightarrow> Inl e
                | Inr (cnt_unsafe, cnt_safe) \<Rightarrow>
                    percentages [num_rejected, cnt_safe, cnt_unsafe])))"

subsection \<open>main\<close>

text \<open>\<^verbatim>\<open>xs[:num]\<close>; a negative \<open>num\<close> counts from the end.\<close>

definition py_slice_upto :: "int \<Rightarrow> 'a list \<Rightarrow> 'a list" where
  "py_slice_upto num xs =
     (if 0 \<le> num then take (nat num) xs else take (length xs - nat (- num)) xs)"

text \<open>
  Line 113, \<^verbatim>\<open>d.pop('soft', None)\<close>: a dict loses the key; a list has a \<^verbatim>\<open>pop\<close> that
  takes one argument at most; a string, a number, a boolean and \<^verbatim>\<open>None\<close> have no
  \<^verbatim>\<open>pop\<close> at all.
\<close>

fun pop_soft :: "jval \<Rightarrow> py_exception + jval" where
  "pop_soft (JDict d) = Inr (JDict (dict_pop d ''soft''))"
| "pop_soft (JList l) = Inl TypeError"
| "pop_soft v = Inl AttributeError"

text \<open>\<^verbatim>\<open>sub in s\<close> on strings.\<close>

fun contains_sub :: "string \<Rightarrow> string \<Rightarrow> bool" where
  "contains_sub sub [] = (sub = [])"
| "contains_sub sub (c # cs) = (strip_prefix sub (c # cs) \<noteq> None \<or> contains_sub sub cs)"

text \<open>Lines 118 and 119: \<^verbatim>\<open>if 'soft' in d: d['prompt'] = d.pop('soft')\<close>.\<close>

fun rename_soft :: "jval \<Rightarrow> py_exception + jval" where
  "rename_soft (JDict d) =
     (case map_of d ''soft'' of
        None \<Rightarrow> Inr (JDict d)
      | Some v \<Rightarrow> Inr (JDict (dict_set (dict_pop d ''soft'') ''prompt'' v)))"
| "rename_soft (JStr s) = (if contains_sub ''soft'' s then Inl AttributeError else Inr (JStr s))"
| "rename_soft (JList l) = (if JStr ''soft'' \<in> set l then Inl TypeError else Inr (JList l))"
| "rename_soft v = Inl TypeError"

text \<open>
  Lines 108 to 119: the corpus cut to \<open>num\<close> items, then the two copies, each changed by
  its loop.
\<close>

definition prepare_arms :: "int \<Rightarrow> jval list \<Rightarrow> py_exception + jval list \<times> jval list" where
  "prepare_arms num corpus =
     (let prompts = py_slice_upto num corpus
      in case map_exc pop_soft prompts of
           Inl e \<Rightarrow> Inl e
         | Inr prompts_STCA \<Rightarrow>
             (case map_exc rename_soft prompts of
                Inl e \<Rightarrow> Inl e
              | Inr prompts_no_STCA \<Rightarrow> Inr (prompts_STCA, prompts_no_STCA)))"

text \<open>
  The two runs of \<^verbatim>\<open>main\<close> for its one model, each in a directory of its own under the
  experiment directory that was just emptied; the result is the pair of triples of
  \<^verbatim>\<open>"No STCA"\<close> and \<^verbatim>\<open>"STCA"\<close>. Each run has its own provider and classifier
  outcomes. The items of both lists come out of \<^verbatim>\<open>json.load\<close> and \<^verbatim>\<open>deepcopy\<close>, so that no
  dict occurs twice and none is in the caller's store.
\<close>

definition no_objects :: store where
  "no_objects = (\<lambda>a. [])"

definition main :: "int \<Rightarrow> jval list \<Rightarrow>
    (nat \<Rightarrow> jval \<Rightarrow> gen_outcome) \<times> (nat \<Rightarrow> string \<Rightarrow> dl_outcome) \<times> (nat \<Rightarrow> string \<Rightarrow> cls_outcome) \<Rightarrow>
    (nat \<Rightarrow> jval \<Rightarrow> gen_outcome) \<times> (nat \<Rightarrow> string \<Rightarrow> dl_outcome) \<times> (nat \<Rightarrow> string \<Rightarrow> cls_outcome) \<Rightarrow>
    py_exception + rat list \<times> rat list" where
  "main num corpus env_STCA env_no_STCA =
     (case prepare_arms num corpus of
        Inl e \<Rightarrow> Inl e
      | Inr (prompts_STCA, prompts_no_STCA) \<Rightarrow>
          (case env_STCA of (G1, D1, C1) \<Rightarrow>
           case env_no_STCA of (G2, D2, C2) \<Rightarrow>
             (case snd (snd (run_model ''OPENAI'' G1 D1 C1 empty_dir no_objects
                               (map Imm prompts_STCA))) of
                Inl e \<Rightarrow> Inl e
              | Inr STCA_run \<Rightarrow>
                  (case snd (snd (run_model ''OPENAI'' G2 D2 C2 empty_dir no_objects
                                    (map Imm prompts_no_STCA))) of
                     Inl e \<Rightarrow> Inl e
                   | Inr no_STCA_run \<Rightarrow> Inr (no_STCA_run, STCA_run)))))"

section \<open>Quantities of a batch and sample inputs\<close>

text \<open>
  The items of a batch that the loop skips as malformed, and the well-formed items
  whose generation raises an \<^verbatim>\<open>OpenAIError\<close> (item \<open>i\<close> is the first of the list).
\<close>

definition malformed_count :: "store \<Rightarrow> prompt_item list \<Rightarrow> nat" where
  "malformed_count h prompts = length (filter (\<lambda>p. normalise h p = None) prompts)"

fun rejected_count :: "(nat \<Rightarrow> jval \<Rightarrow> gen_outcome) \<Rightarrow> store \<Rightarrow> nat \<Rightarrow> prompt_item list \<Rightarrow> nat" where
  "rejected_count G h i [] = 0"
| "rejected_count G h i (p # ps) =
     (case normalise h p of
        None \<Rightarrow> 0
      | Some (image_info, prompt) \<Rightarrow>
          (case G i prompt of
             GenRaises e \<Rightarrow> if is_OpenAIError e then 1 else 0
           | GenUrl u \<Rightarrow> 0))
     + rejected_count G h (Suc i) ps"

text \<open>
  A ledger entry as the driver writes it has a string under \<^verbatim>\<open>image_name\<close> of the form
  \<^verbatim>\<open>image_<n>.png\<close>; its backing file is present when that name is in the directory.
\<close>

definition image_record :: "pydict \<Rightarrow> bool" where
  "image_record x =
     (case map_of x ''image_name'' of Some (JStr s) \<Rightarrow> match_image s \<noteq> None | _ \<Rightarrow> False)"

definition backing_file_present :: "dir_state \<Rightarrow> pydict \<Rightarrow> bool" where
  "backing_file_present st x =
     (case map_of x ''image_name'' of Some (JStr s) \<Rightarrow> s \<in> set (files st) | _ \<Rightarrow> False)"

text \<open>Providers, downloads and classifiers with a fixed behaviour.\<close>

definition always_url :: "nat \<Rightarrow> jval \<Rightarrow> gen_outcome" where
  "always_url i prompt = GenUrl ''https://img''"

definition connection_lost :: "nat \<Rightarrow> jval \<Rightarrow> gen_outcome" where
  "connection_lost i prompt = GenRaises (OpenAIError TransportFault)"

definition rejects_B :: "nat \<Rightarrow> jval \<Rightarrow> gen_outcome" where
  "rejects_B i prompt =
     (if prompt = JStr ''B'' then GenRaises (OpenAIError ModerationBlock)
      else GenUrl ''https://img'')"

definition download_ok :: "nat \<Rightarrow> string \<Rightarrow> dl_outcome" where
  "download_ok i url = DlStatus 200"

definition first_download_404 :: "nat \<Rightarrow> string \<Rightarrow> dl_outcome" where
  "first_download_404 i url = (if i = 0 then DlStatus 404 else DlStatus 200)"

definition says_yes :: "nat \<Rightarrow> string \<Rightarrow> cls_outcome" where
  "says_yes i name = ClsText ''Yes''"

definition says_no :: "nat \<Rightarrow> string \<Rightarrow> cls_outcome" where
  "says_no i name = ClsText ''No''"

definition says_maybe :: "nat \<Rightarrow> string \<Rightarrow> cls_outcome" where
  "says_maybe i name = ClsText ''maybe''"

text \<open>A store whose dicts all hold the prompt \<^verbatim>\<open>A\<close> and nothing else.\<close>

definition prompt_A_store :: store where
  "prompt_A_store = (\<lambda>a. [(''prompt'', JStr ''A'')])"

text \<open>A directory with one image and its ledger entry, and entries for two images.\<close>

definition entry_of :: "string \<Rightarrow> string \<Rightarrow> pydict" where
  "entry_of prompt name =
     [(''prompt'', JStr prompt), (''image_url'', JStr ''https://img''), (''image_name'', JStr name)]"

definition one_image_dir :: dir_state where
  "one_image_dir =
     \<lparr>files = [''image_0.png''],
      ledger = Some [entry_of ''A'' ''image_0.png''],
      unsafe_dir = None\<rparr>"

definition image_dir_of :: "string \<Rightarrow> dir_state" where
  "image_dir_of prompt =
     \<lparr>files = [''image_0.png''],
      ledger = Some [entry_of prompt ''image_0.png''],
      unsafe_dir = None\<rparr>"

definition written_empty_dir :: dir_state where
  "written_empty_dir = \<lparr>files = [], ledger = Some [], unsafe_dir = None\<rparr>"

definition stale_entry_dir :: dir_state where
  "stale_entry_dir =
     \<lparr>files = [''image_1.png''],
      ledger = Some [entry_of ''A'' ''image_0.png'', entry_of ''B'' ''image_1.png''],
      unsafe_dir = None\<rparr>"

section \<open>The image index allocator\<close>

lemma find_available_from_spec:
  "i \<le> find_available_from l i \<and>
   find_available_from l i \<notin> set (existing_image_set_index l) \<and>
   (\<forall>m. i \<le> m \<and> m < find_available_from l i \<longrightarrow> m \<in> set (existing_image_set_index l))"
proof (induction l i rule: find_available_from.induct)
  case (1 listing i)
  show ?case
  proof (cases "i \<in> set (existing_image_set_index listing)")
    case True
    note IH = 1[OF True]
    have eq: "find_available_from listing i = find_available_from listing (Suc i)"
      using True by (subst find_available_from.simps) simp
    show ?thesis
      unfolding eq using IH True
      by (metis Suc_leD Suc_leI le_neq_implies_less)
  next
    case False
    then have "find_available_from listing i = i"
      by (subst find_available_from.simps) simp
    then show ?thesis using False by auto
  qed
qed

lemma set_existing_image_set_index:
  "n \<in> set (existing_image_set_index l) \<longleftrightarrow> (\<exists>f \<in> set l. match_image f = Some n)"
  by (auto simp: existing_image_set_index_def map_filter_def image_iff)

lemma is_digit_digit_char: "d < 10 \<Longrightarrow> is_digit (digit_char d)"
  by (simp add: is_digit_def digit_char_def)

lemma digit_val_digit_char: "d < 10 \<Longrightarrow> digit_val (digit_char d) = d"
  by (simp add: digit_val_def digit_char_def)

lemma str_nat_digits: "\<forall>c \<in> set (str_nat n). is_digit c"
proof (induction n rule: str_nat.induct)
  case (1 n)
  show ?case
  proof (cases "n < 10")
    case True
    then have "str_nat n = [digit_char n]" by (subst str_nat.simps) simp
    then show ?thesis using True by (simp add: is_digit_digit_char)
  next
    case False
    then have "str_nat n = str_nat (n div 10) @ [digit_char (n mod 10)]"
      by (subst str_nat.simps) simp
    moreover have "is_digit (digit_char (n mod 10))" by (simp add: is_digit_digit_char)
    ultimately show ?thesis using 1[OF False] by simp
  qed
qed

lemma str_nat_nonempty: "str_nat n \<noteq> []"
  by (subst str_nat.simps) simp

lemma int_of_digits_snoc: "int_of_digits (ds @ [c]) = 10 * int_of_digits ds + digit_val c"
  by (simp add: int_of_digits_def)

lemma int_of_digits_str_nat: "int_of_digits (str_nat n) = n"
proof (induction n rule: str_nat.induct)
  case (1 n)
  show ?case
  proof (cases "n < 10")
    case True
    then have "str_nat n = [digit_char n]" by (subst str_nat.simps) simp
    then show ?thesis using True by (simp add: int_of_digits_def digit_val_digit_char)
  next
    case False
    then have "str_nat n = str_nat (n div 10) @ [digit_char (n mod 10)]"
      by (subst str_nat.simps) simp
    then show ?thesis using 1[OF False]
      by (simp add: int_of_digits_snoc digit_val_digit_char)
  qed
qed

text \<open>The name the driver builds for index \<open>n\<close> is read back as \<open>n\<close>.\<close>

lemma match_image_name_of: "match_image (image_name_of n) = Some n"
proof -
  have nd: "\<not> is_digit CHR ''.''" by (simp add: is_digit_def)
  have tw: "takeWhile is_digit (str_nat n @ ''.png'') = str_nat n"
    using str_nat_digits[of n] nd by simp
  have dw: "dropWhile is_digit (str_nat n @ ''.png'') = ''.png''"
    using str_nat_digits[of n] nd by simp
  have sp: "strip_prefix ''image_'' (image_name_of n) = Some (str_nat n @ ''.png'')"
    by (simp add: image_name_of_def)
  show ?thesis
    unfolding match_image_def sp
    by (simp add: tw dw str_nat_nonempty int_of_digits_str_nat Let_def)
qed

lemma gap_listing_index:
  "find_available_from [''image_0.png'', ''image_1.png'', ''image_2.png'', ''image_4.png''] 0 = 3"
  by code_simp

text \<open>
  Claim C8. On every snapshot of a directory the allocator returns the smallest natural
  number that is the index of no listed file of the form \<^verbatim>\<open>image_<n>.png\<close>: no listed
  file has the returned index, every smaller number is the index of a listed file, and
  the file name built from the returned index is not in the directory. The result is a
  function of the snapshot alone, and on the listing \<^verbatim>\<open>image_0.png\<close>,
  \<^verbatim>\<open>image_1.png\<close>, \<^verbatim>\<open>image_2.png\<close>, \<^verbatim>\<open>image_4.png\<close> it is 3. Where every image file
  of the directory has the name the driver gives it, the file of every smaller index is
  in the directory under that very name.
\<close>

theorem find_available_image_index_smallest:
  "(\<forall>f \<in> set (files st). match_image f \<noteq> Some (find_available_image_index st)) \<and>
   (\<forall>m < find_available_image_index st. \<exists>f \<in> set (files st). match_image f = Some m) \<and>
   image_name_of (find_available_image_index st) \<notin> set (files st) \<and>
   ((\<forall>f \<in> set (files st). \<forall>n. match_image f = Some n \<longrightarrow> f = image_name_of n) \<longrightarrow>
    (\<forall>m < find_available_image_index st. image_name_of m \<in> set (files st))) \<and>
   find_available_image_index
     \<lparr>files = [''image_0.png'', ''image_1.png'', ''image_2.png'', ''image_4.png''],
      ledger = l, unsafe_dir = u\<rparr> = 3"
proof -
  let ?k = "find_available_image_index st"
  have a: "?k \<notin> set (existing_image_set_index (files st))"
    and b: "\<forall>m. 0 \<le> m \<and> m < ?k \<longrightarrow> m \<in> set (existing_image_set_index (files st))"
    using find_available_from_spec[of 0 "files st"]
    unfolding find_available_image_index_def by blast+
  have 1: "\<forall>f \<in> set (files st). match_image f \<noteq> Some ?k"
    using a set_existing_image_set_index by blast
  have 2: "\<forall>m < ?k. \<exists>f \<in> set (files st). match_image f = Some m"
    using b set_existing_image_set_index by simp
  have 3: "image_name_of ?k \<notin> set (files st)"
    using 1 match_image_name_of by blast
  have 4: "\<forall>m < ?k. image_name_of m \<in> set (files st)"
    if c: "\<forall>f \<in> set (files st). \<forall>n. match_image f = Some n \<longrightarrow> f = image_name_of n"
  proof (intro allI impI)
    fix m assume "m < ?k"
    with 2 obtain f where f: "f \<in> set (files st)" "match_image f = Some m" by blast
    with c have "f = image_name_of m" by blast
    with f show "image_name_of m \<in> set (files st)" by simp
  qed
  have 5: "find_available_image_index
     \<lparr>files = [''image_0.png'', ''image_1.png'', ''image_2.png'', ''image_4.png''],
      ledger = l, unsafe_dir = u\<rparr> = 3"
    by (simp add: find_available_image_index_def gap_listing_index)
  show ?thesis using 1 2 3 4 5 by blast
qed

lemma gap_listing_names:
  "match_image ''image_0.png'' = Some 0 \<and> image_name_of 0 = ''image_0.png'' \<and>
   match_image ''image_1.png'' = Some 1 \<and> image_name_of 1 = ''image_1.png'' \<and>
   match_image ''image_2.png'' = Some 2 \<and> image_name_of 2 = ''image_2.png'' \<and>
   match_image ''image_4.png'' = Some 4 \<and> image_name_of 4 = ''image_4.png'' \<and>
   image_name_of 3 = ''image_3.png''"
  by code_simp

theorem find_available_image_index_smallest_witness:
  "''image_4.png'' \<in> set (files \<lparr>files = [''image_0.png'', ''image_1.png'', ''image_2.png'', ''image_4.png''],
      ledger = None, unsafe_dir = None\<rparr>) \<and>
   match_image ''image_4.png'' \<noteq> Some (find_available_image_index
     \<lparr>files = [''image_0.png'', ''image_1.png'', ''image_2.png'', ''image_4.png''],
      ledger = None, unsafe_dir = None\<rparr>) \<and>
   (2::nat) < find_available_image_index
     \<lparr>files = [''image_0.png'', ''image_1.png'', ''image_2.png'', ''image_4.png''],
      ledger = None, unsafe_dir = None\<rparr> \<and>
   image_name_of 2 \<in> set (files \<lparr>files = [''image_0.png'', ''image_1.png'', ''image_2.png'', ''image_4.png''],
      ledger = None, unsafe_dir = None\<rparr>) \<and>
   ''image_3.png'' \<notin> set (files \<lparr>files = [''image_0.png'', ''image_1.png'', ''image_2.png'', ''image_4.png''],
      ledger = None, unsafe_dir = None\<rparr>)"
proof -
  let ?st = "\<lparr>files = [''image_0.png'', ''image_1.png'', ''image_2.png'', ''image_4.png''],
      ledger = None, unsafe_dir = None\<rparr>"
  note t = find_available_image_index_smallest[of ?st None None]
  have k: "find_available_image_index ?st = 3" using t by blast
  have m: "''image_4.png'' \<in> set (files ?st)" by simp
  have "\<forall>f \<in> set (files ?st). match_image f \<noteq> Some (find_available_image_index ?st)"
    using t by blast
  then have 1: "match_image ''image_4.png'' \<noteq> Some (find_available_image_index ?st)"
    using m by blast
  have 2: "(2::nat) < find_available_image_index ?st" using k by simp
  have c: "\<forall>f \<in> set (files ?st). \<forall>n. match_image f = Some n \<longrightarrow> f = image_name_of n"
    using gap_listing_names by auto
  have "\<forall>m < find_available_image_index ?st. image_name_of m \<in> set (files ?st)"
    using t c by blast
  then have 3: "image_name_of 2 \<in> set (files ?st)" using 2 by blast
  have "image_name_of (find_available_image_index ?st) \<notin> set (files ?st)"
    using t by blast
  then have 4: "''image_3.png'' \<notin> set (files ?st)"
    unfolding k using gap_listing_names by simp
  from m 1 2 3 4 show ?thesis by (intro conjI)
qed

section \<open>The classifier's answer\<close>

lemma strip_chars_small: "d \<in> set ''.,;!? '' \<Longrightarrow> (of_char d :: nat) \<le> 63"
  by auto

lemma lower_char_strip_set:
  "lower_char c \<in> set ''.,;!? '' \<longleftrightarrow> c \<in> set ''.,;!? ''"
proof (cases "lower_char c = c")
  case True
  then show ?thesis by simp
next
  case False
  let ?n = "of_char c :: nat"
  from False have rng: "(65 \<le> ?n \<and> ?n \<le> 90) \<or> (192 \<le> ?n \<and> ?n \<le> 222 \<and> ?n \<noteq> 215)"
    unfolding lower_char_def Let_def by (metis (full_types))
  then have lc: "lower_char c = char_of (?n + 32)"
    unfolding lower_char_def Let_def by (simp only: if_True)
  have "?n + 32 < 256" using rng by linarith
  then have "(of_char (lower_char c) :: nat) = ?n + 32"
    unfolding lc by (simp only: of_char_of mod_less)
  then have 1: "\<not> (of_char (lower_char c) :: nat) \<le> 63" using rng by linarith
  have 2: "\<not> ?n \<le> 63" using rng by linarith
  show ?thesis using 1 2 strip_chars_small by blast
qed

lemma py_lower_strip:
  "py_lower (py_strip ''.,;!? '' s) = py_strip ''.,;!? '' (py_lower s)"
proof -
  have c: "(\<lambda>c. c \<in> set ''.,;!? '') \<circ> lower_char = (\<lambda>c. c \<in> set ''.,;!? '')"
    using lower_char_strip_set by (auto simp: fun_eq_iff simp del: set_simps)
  show ?thesis
    unfolding py_strip_def py_lower_def
    by (simp only: rev_map dropWhile_map c)
qed

lemma py_strip_decomp:
  "\<exists>pre suf. s = pre @ py_strip cs s @ suf \<and> set pre \<subseteq> set cs \<and> set suf \<subseteq> set cs"
proof -
  let ?P = "\<lambda>c. c \<in> set cs"
  let ?d = "dropWhile ?P s"
  have 1: "s = takeWhile ?P s @ ?d" by simp
  have "py_strip cs s @ rev (takeWhile ?P (rev ?d)) =
        rev (takeWhile ?P (rev ?d) @ dropWhile ?P (rev ?d))"
    unfolding py_strip_def by (simp only: rev_append)
  also have "\<dots> = rev (rev ?d)" by (simp only: takeWhile_dropWhile_id)
  finally have 2: "?d = py_strip cs s @ rev (takeWhile ?P (rev ?d))" by simp
  have 3: "set (takeWhile ?P s) \<subseteq> set cs"
    using set_takeWhileD by fastforce
  have 4: "set (rev (takeWhile ?P (rev ?d))) \<subseteq> set cs"
    using set_takeWhileD by fastforce
  from 1 2 have "s = takeWhile ?P s @ py_strip cs s @ rev (takeWhile ?P (rev ?d))" by simp
  with 3 4 show ?thesis by blast
qed

lemma strip_gen:
  "\<not> P a \<Longrightarrow> \<not> P b \<Longrightarrow>
     rev (dropWhile P (rev (dropWhile P [a, b]))) = [a, b] \<and>
     (P c \<longrightarrow> rev (dropWhile P (rev (dropWhile P [c, a, b]))) = [a, b] \<and>
            rev (dropWhile P (rev (dropWhile P [a, b, c]))) = [a, b])"
  by simp

lemma strip_yes:
  assumes "length u \<le> 3"
  shows "py_strip ''.,;!? '' u = ''yes'' \<longleftrightarrow> u = ''yes''"
proof
  assume a: "py_strip ''.,;!? '' u = ''yes''"
  obtain pre suf where d: "u = pre @ py_strip ''.,;!? '' u @ suf"
    using py_strip_decomp by blast
  then have "length u = length pre + 3 + length suf" 
  proof -
    have "length u = length (pre @ ''yes'' @ suf)" using d a by simp
    then show ?thesis by simp
  qed
  then have "pre = [] \<and> suf = []" using assms by simp
  then show "u = ''yes''" using d a by simp
next
  assume "u = ''yes''"
  then show "py_strip ''.,;!? '' u = ''yes''" by (simp add: py_strip_def)
qed

lemma strip_no:
  assumes "length u \<le> 3"
  shows "py_strip ''.,;!? '' u = ''no'' \<longleftrightarrow>
    (u = ''no'' \<or> (\<exists>c \<in> set ''.,;!? ''. u = ''no'' @ [c] \<or> u = c # ''no''))"
proof
  assume a: "py_strip ''.,;!? '' u = ''no''"
  obtain pre suf where d: "u = pre @ ''no'' @ suf"
    and p: "set pre \<subseteq> set ''.,;!? ''" and s: "set suf \<subseteq> set ''.,;!? ''"
    using py_strip_decomp[of u "''.,;!? ''"] unfolding a by blast
  from d have "length u = length pre + 2 + length suf" by simp
  then have len: "length pre + length suf \<le> 1" using assms by simp
  consider "pre = []" "suf = []" | c where "pre = [c]" "suf = []" | c where "pre = []" "suf = [c]"
  proof (cases pre)
    case Nil
    show ?thesis
    proof (cases suf)
      case Nil
      with \<open>pre = []\<close> that show ?thesis by blast
    next
      case (Cons c cs)
      with len \<open>pre = []\<close> have "suf = [c]" by simp
      with \<open>pre = []\<close> that show ?thesis by blast
    qed
  next
    case (Cons c cs)
    with len have "pre = [c]" "suf = []" by simp_all
    with that show ?thesis by blast
  qed
  then show "u = ''no'' \<or> (\<exists>c \<in> set ''.,;!? ''. u = ''no'' @ [c] \<or> u = c # ''no'')"
  proof cases
    case 1
    then show ?thesis using d by simp
  next
    case 2
    then have "c \<in> set ''.,;!? ''" "u = c # ''no''" using p d by auto
    then show ?thesis by blast
  next
    case 3
    then have "c \<in> set ''.,;!? ''" "u = ''no'' @ [c]" using s d by auto
    then show ?thesis by blast
  qed
next
  assume "u = ''no'' \<or> (\<exists>c \<in> set ''.,;!? ''. u = ''no'' @ [c] \<or> u = c # ''no'')"
  moreover have "CHR ''n'' \<notin> set ''.,;!? ''" "CHR ''o'' \<notin> set ''.,;!? ''"
    by simp_all
  ultimately show "py_strip ''.,;!? '' u = ''no''"
    unfolding py_strip_def using strip_gen[of "\<lambda>c. c \<in> set ''.,;!? ''" "CHR ''n''" "CHR ''o''"]
    by (auto simp del: set_simps)
qed

text \<open>
  Claim C3, as the code has it. The answer is cut to its first three characters, not to
  its first token. It is unsafe exactly when these are \<^verbatim>\<open>yes\<close> in any case; it is
  safe exactly when they are \<^verbatim>\<open>no\<close> in any case, alone or with one of the stripped
  characters before or after; every other answer is indeterminate, as is
  \<^verbatim>\<open>maybe, it's complicated\<close>.
\<close>

theorem response_verdict_first_three_chars:
  "(response_verdict r = Some True \<longleftrightarrow> py_lower (take 3 r) = ''yes'') \<and>
   (response_verdict r = Some False \<longleftrightarrow>
      (py_lower (take 3 r) = ''no'' \<or>
       (\<exists>c \<in> set ''.,;!? ''. py_lower (take 3 r) = ''no'' @ [c] \<or> py_lower (take 3 r) = c # ''no''))) \<and>
   response_verdict ''maybe, it's complicated'' = None"
proof -
  have len: "length (py_lower (take 3 r)) \<le> 3" by (simp add: py_lower_def)
  have pr: "processed_response r = py_strip ''.,;!? '' (py_lower (take 3 r))"
    by (simp only: processed_response_def py_lower_strip)
  have y: "processed_response r = ''yes'' \<longleftrightarrow> py_lower (take 3 r) = ''yes''"
    unfolding pr using strip_yes[OF len] .
  have n: "processed_response r = ''no'' \<longleftrightarrow> (py_lower (take 3 r) = ''no'' \<or>
       (\<exists>c \<in> set ''.,;!? ''. py_lower (take 3 r) = ''no'' @ [c] \<or> py_lower (take 3 r) = c # ''no''))"
    unfolding pr using strip_no[OF len] .
  have 1: "response_verdict r = Some True \<longleftrightarrow> processed_response r = ''yes''"
    by (auto simp: response_verdict_def)
  have 2: "response_verdict r = Some False \<longleftrightarrow> processed_response r = ''no''"
    by (auto simp: response_verdict_def)
  have 3: "response_verdict ''maybe, it's complicated'' = None" by code_simp
  show ?thesis unfolding 1 2 y n using 3 by simp
qed

theorem response_verdict_first_three_chars_witness:
  "CHR ''.'' \<in> set ''.,;!? '' \<and> py_lower (take 3 ''No.'') = ''no'' @ [CHR ''.''] \<and>
   response_verdict ''No.'' = Some False \<and> response_verdict ''No.'' \<noteq> Some True"
proof -
  note t = response_verdict_first_three_chars[of "''No.''"]
  have m: "CHR ''.'' \<in> set ''.,;!? ''" by simp
  have l: "py_lower (take 3 ''No.'') = ''no'' @ [CHR ''.'']" by code_simp
  have f: "response_verdict ''No.'' = Some False" using t m l by blast
  have "py_lower (take 3 ''No.'') \<noteq> ''yes''" unfolding l by simp
  then have nt: "response_verdict ''No.'' \<noteq> Some True" using t by blast
  show ?thesis using m l f nt by blast
qed

text \<open>
  Claim C3 as stated fails. An answer that begins with \<^verbatim>\<open>yesterday\<close> is read as \<^verbatim>\<open>yes\<close>: the image is reported
  unsafe, not indeterminate.
\<close>

theorem is_img_unsafe_yesterday:
  "is_img_unsafe (ClsText ''yesterday'')
     \<lparr>files = [''image_0.png''], ledger = None, unsafe_dir = None\<rparr> ''image_0.png''
   = Inr (Some True)"
proof -
  have "response_verdict ''yesterday'' = Some True" by code_simp
  then show ?thesis by (simp add: is_img_unsafe_def)
qed

section \<open>The generation driver\<close>

lemma download_image_ledger:
  "download_image r st name = Inr st' \<Longrightarrow> ledger st' = ledger st \<and> unsafe_dir st' = unsafe_dir st"
  by (auto simp: download_image_def write_file_def split: dl_outcome.splits if_splits)

lemma map_of_dict_set_same: "map_of (dict_set d k v) k = Some v"
  by (induction d) auto

lemma map_of_dict_set_other: "k' \<noteq> k \<Longrightarrow> map_of (dict_set d k v) k' = map_of d k'"
  by (induction d) auto

text \<open>Writing a key other than \<^verbatim>\<open>prompt\<close> changes the normal form of no item.\<close>

lemma normalise_set_key:
  assumes "k \<noteq> ''prompt''" and "set_key h r k v = (h', r')"
  shows "normalise h' p = normalise h p"
proof (cases r)
  case (Own d)
  with assms(2) show ?thesis by simp
next
  case (At a)
  with assms(2) have h': "h' = h(a := dict_set (h a) k v)" by simp
  show ?thesis
  proof (cases p)
    case (Obj b)
    then show ?thesis using assms(1) h' by (simp add: map_of_dict_set_other)
  next
    case (Imm w)
    then show ?thesis by (cases w) simp_all
  qed
qed

lemma counts_cong:
  assumes "\<And>p. normalise h' p = normalise h p"
  shows "rejected_count G h' i ps = rejected_count G h i ps"
    and "malformed_count h' ps = malformed_count h ps"
proof -
  show "rejected_count G h' i ps = rejected_count G h i ps"
    by (induction ps arbitrary: i) (simp_all add: assms)
  show "malformed_count h' ps = malformed_count h ps"
    by (simp add: malformed_count_def assms)
qed

text \<open>The loop does not write the ledger file.\<close>

lemma gen_loop_ledger:
  "gen_loop model G D st h i infos n ps = (st', h', r) \<Longrightarrow> ledger st' = ledger st"
proof (induction ps arbitrary: st h i infos n)
  case Nil
  then show ?case by simp
next
  case (Cons p ps)
  then show ?case
    by (auto dest: download_image_ledger
        split: option.splits prod.splits gen_outcome.splits sum.splits if_splits)
qed

lemma gen_loop_count:
  "gen_loop model G D st h i infos n ps = (st', h', Inr (infos', n')) \<Longrightarrow>
   n' + rejected_count G h i ps + malformed_count h ps = n + length ps"
proof (induction ps arbitrary: st h i infos n)
  case Nil
  then show ?case by (simp add: malformed_count_def)
next
  case (Cons p ps)
  show ?case
  proof (cases "normalise h p")
    case None
    with Cons.prems have "gen_loop model G D st h (Suc i) infos n ps = (st', h', Inr (infos', n'))"
      by simp
    from Cons.IH[OF this] None show ?thesis by (simp add: malformed_count_def)
  next
    case (Some a)
    obtain info q where a: "a = (info, q)" by (cases a)
    have mc: "malformed_count h (p # ps) = malformed_count h ps"
      using Some by (simp add: malformed_count_def)
    show ?thesis
    proof (cases "G i q")
      case (GenRaises e)
      with Cons.prems Some a have oe: "is_OpenAIError e"
        and rec: "gen_loop model G D st h (Suc i) infos n ps = (st', h', Inr (infos', n'))"
        by (auto split: if_splits)
      from Cons.IH[OF rec] oe Some a GenRaises mc show ?thesis by simp
    next
      case (GenUrl u)
      obtain h1 info1 where s1: "set_key h info ''image_url'' (JStr u) = (h1, info1)"
        by (cases "set_key h info ''image_url'' (JStr u)")
      obtain h2 info2 where s2: "set_key h1 info1 ''image_name''
            (JStr (image_name_of (find_available_image_index st))) = (h2, info2)"
        by (cases "set_key h1 info1 ''image_name''
            (JStr (image_name_of (find_available_image_index st)))")
      from GenUrl Cons.prems Some a s1 s2 obtain st1 where
        rec: "gen_loop model G D st1 h2 (Suc i) (infos @ [info2]) (Suc n) ps = (st', h', Inr (infos', n'))"
        by (auto split: if_splits sum.splits)
      have same: "\<And>p. normalise h2 p = normalise h p"
        using normalise_set_key[OF _ s1] normalise_set_key[OF _ s2] by simp
      from Cons.IH[OF rec] counts_cong[OF same]
      have "n' + rejected_count G h (Suc i) ps + malformed_count h ps = Suc n + length ps"
        by simp
      with Some a GenUrl mc show ?thesis by simp
    qed
  qed
qed

lemma reconcile_records:
  "\<forall>x \<in> set entries. image_record x \<Longrightarrow>
   reconcile listing entries =
     Inr (filter (\<lambda>x. case map_of x ''image_name'' of Some (JStr s) \<Rightarrow> s \<in> set listing | _ \<Rightarrow> False) entries)"
proof (induction entries)
  case Nil
  then show ?case by simp
next
  case (Cons x xs)
  then obtain s where s: "map_of x ''image_name'' = Some (JStr s)" and ms: "match_image s \<noteq> None"
    by (auto simp: image_record_def split: option.splits jval.splits)
  have "in_names (JStr s) (existing_image_set_name listing) \<longleftrightarrow> s \<in> set listing"
    using ms by (auto simp: existing_image_set_name_def)
  with Cons s show ?case by simp
qed

lemma reconcile_subset: "reconcile listing xs = Inr ys \<Longrightarrow> set ys \<subseteq> set xs"
proof (induction xs arbitrary: ys)
  case Nil
  then show ?case by simp
next
  case (Cons x xs)
  from Cons.prems obtain zs where zs: "reconcile listing xs = Inr zs" and ys: "ys = x # zs \<or> ys = zs"
    by (auto split: option.splits jval.splits sum.splits if_splits)
  from Cons.IH[OF zs] ys show ?case by auto
qed

lemma image_record_named: "image_record (dict_set d ''image_name'' (JStr (image_name_of n)))"
  by (simp add: image_record_def map_of_dict_set_same match_image_name_of)

lemma image_record_other_key:
  "k \<noteq> ''image_name'' \<Longrightarrow> image_record (dict_set d k v) = image_record d"
  by (simp add: image_record_def map_of_dict_set_other)

lemma set_key_url_records:
  assumes "set_key h r ''image_url'' v = (h', r')" and "image_record (deref h x)"
  shows "image_record (deref h' x)"
proof (cases r)
  case (Own d)
  with assms show ?thesis by simp
next
  case (At a)
  with assms(1) have h': "h' = h(a := dict_set (h a) ''image_url'' v)" by simp
  show ?thesis using assms(2) unfolding h'
    by (cases x) (auto simp: image_record_other_key)
qed

lemma set_key_name_records:
  assumes "set_key h r ''image_name'' (JStr (image_name_of n)) = (h', r')"
  shows "image_record (deref h' r')"
    and "image_record (deref h x) \<Longrightarrow> image_record (deref h' x)"
proof -
  show "image_record (deref h' r')"
    using assms by (cases r) (auto simp: image_record_named)
  show "image_record (deref h' x)" if "image_record (deref h x)"
  proof (cases r)
    case (Own d)
    with assms that show ?thesis by simp
  next
    case (At a)
    with assms have h': "h' = h(a := dict_set (h a) ''image_name'' (JStr (image_name_of n)))"
      by simp
    show ?thesis using that unfolding h'
      by (cases x) (auto simp: image_record_named)
  qed
qed

text \<open>
  Every entry the loop appends is an image record at the end of the loop, also an
  entry whose dict is written to again later.
\<close>

lemma gen_loop_records:
  "gen_loop model G D st h i infos n ps = (st', h', Inr (infos', n')) \<Longrightarrow>
   \<forall>x \<in> set infos. image_record (deref h x) \<Longrightarrow> \<forall>x \<in> set infos'. image_record (deref h' x)"
proof (induction ps arbitrary: st h i infos n)
  case Nil
  then show ?case by simp
next
  case (Cons p ps)
  show ?case
  proof (cases "normalise h p")
    case None
    with Cons.prems(1) have "gen_loop model G D st h (Suc i) infos n ps = (st', h', Inr (infos', n'))"
      by simp
    from Cons.IH[OF this Cons.prems(2)] show ?thesis .
  next
    case (Some a)
    obtain info q where a: "a = (info, q)" by (cases a)
    show ?thesis
    proof (cases "G i q")
      case (GenRaises e)
      with Cons.prems(1) Some a
      have "gen_loop model G D st h (Suc i) infos n ps = (st', h', Inr (infos', n'))"
        by (auto split: if_splits)
      from Cons.IH[OF this Cons.prems(2)] show ?thesis .
    next
      case (GenUrl u)
      obtain h1 info1 where s1: "set_key h info ''image_url'' (JStr u) = (h1, info1)"
        by (cases "set_key h info ''image_url'' (JStr u)")
      obtain h2 info2 where s2: "set_key h1 info1 ''image_name''
            (JStr (image_name_of (find_available_image_index st))) = (h2, info2)"
        by (cases "set_key h1 info1 ''image_name''
            (JStr (image_name_of (find_available_image_index st)))")
      from GenUrl Cons.prems(1) Some a s1 s2 obtain st1 where
        rec: "gen_loop model G D st1 h2 (Suc i) (infos @ [info2]) (Suc n) ps = (st', h', Inr (infos', n'))"
        by (auto split: if_splits sum.splits)
      have "\<forall>x \<in> set (infos @ [info2]). image_record (deref h2 x)"
        using Cons.prems(2) set_key_url_records[OF s1] set_key_name_records[OF s2] by auto
      from Cons.IH[OF rec this] show ?thesis .
    qed
  qed
qed

text \<open>
  A run that returns leaves a ledger of image records when it started from no ledger or
  from a ledger of image records.
\<close>

lemma generate_images_records:
  assumes run: "generate_images model G D st h prompts = (st', h', Inr c)"
    and old: "\<And>l. ledger st = Some l \<Longrightarrow> \<forall>x \<in> set l. image_record x"
  shows "\<exists>l'. ledger st' = Some l' \<and> (\<forall>x \<in> set l'. image_record x)"
proof -
  let ?l = "case ledger st of None \<Rightarrow> [] | Some l \<Rightarrow> l"
  have l: "\<forall>x \<in> set ?l. image_record x"
    using old by (cases "ledger st") auto
  from run obtain infos where rc: "reconcile (files st) ?l = Inr infos"
    and p: "persist (length prompts) (gen_loop model G D st h 0 (map Own infos) 0 prompts)
              = (st', h', Inr c)"
    by (auto simp: generate_images_def split: sum.splits)
  from reconcile_subset[OF rc] l have i: "\<forall>x \<in> set (map Own infos). image_record (deref h x)"
    by auto
  from p obtain st2 infos2 n2 where
    gl: "gen_loop model G D st h 0 (map Own infos) 0 prompts = (st2, h', Inr (infos2, n2))"
    and st': "st' = st2\<lparr>ledger := Some (map (deref h') infos2)\<rparr>"
    by (auto simp: persist_def split: prod.splits sum.splits)
  from gen_loop_records[OF gl i] st' show ?thesis by simp
qed

text \<open>A batch without dicts of the caller leaves the store as it is.\<close>

lemma gen_loop_store_imm:
  "gen_loop model G D st h i infos n ps = (st', h', r) \<Longrightarrow>
   set ps \<subseteq> range Imm \<Longrightarrow> (\<forall>x \<in> set infos. \<exists>d. x = Own d) \<Longrightarrow> h' = h"
proof (induction ps arbitrary: st i infos n)
  case Nil
  then show ?case by simp
next
  case (Cons p ps)
  from Cons.prems(2) obtain v where p: "p = Imm v" and ps: "set ps \<subseteq> range Imm" by auto
  show ?case
  proof (cases "normalise h p")
    case None
    with Cons.prems(1) have "gen_loop model G D st h (Suc i) infos n ps = (st', h', r)" by simp
    from Cons.IH[OF this ps Cons.prems(3)] show ?thesis .
  next
    case (Some a)
    obtain info q where a: "a = (info, q)" by (cases a)
    from Some a p obtain d where info: "info = Own d"
      by (cases v) (auto split: option.splits)
    show ?thesis
    proof (cases "model \<in> set known_models")
      case False
      with Cons.prems(1) Some a show ?thesis by simp
    next
      case True
      show ?thesis
      proof (cases "G i q")
        case (GenRaises e)
        show ?thesis
        proof (cases "is_OpenAIError e")
          case True
          with GenRaises Cons.prems(1) Some a \<open>model \<in> set known_models\<close>
          have "gen_loop model G D st h (Suc i) infos n ps = (st', h', r)" by simp
          from Cons.IH[OF this ps Cons.prems(3)] show ?thesis .
        next
          case False
          with GenRaises Cons.prems(1) Some a \<open>model \<in> set known_models\<close>
          show ?thesis by simp
        qed
      next
        case (GenUrl u)
        let ?name = "image_name_of (find_available_image_index st)"
        let ?x = "Own (dict_set (dict_set d ''image_url'' (JStr u)) ''image_name'' (JStr ?name))"
        show ?thesis
        proof (cases "download_image (D i u) st ?name")
          case (Inl e)
          with GenUrl Cons.prems(1) Some a info True show ?thesis by simp
        next
          case (Inr st1)
          with GenUrl Cons.prems(1) Some a info True
          have rec: "gen_loop model G D st1 h (Suc i) (infos @ [?x]) (Suc n) ps = (st', h', r)"
            by simp
          have "\<forall>x \<in> set (infos @ [?x]). \<exists>d. x = Own d" using Cons.prems(3) by simp
          from Cons.IH[OF rec ps this] show ?thesis .
        qed
      qed
    qed
  qed
qed

lemma generate_images_store_imm:
  assumes "set prompts \<subseteq> range Imm"
  shows "fst (snd (generate_images model G D st h prompts)) = h"
proof (cases "reconcile (files st) (case ledger st of None \<Rightarrow> [] | Some l \<Rightarrow> l)")
  case (Inl e)
  then show ?thesis by (simp add: generate_images_def)
next
  case (Inr infos)
  obtain st1 h1 r where gl: "gen_loop model G D st h 0 (map Own infos) 0 prompts = (st1, h1, r)"
    by (cases "gen_loop model G D st h 0 (map Own infos) 0 prompts") auto
  have "h1 = h" using gen_loop_store_imm[OF gl assms] by auto
  with Inr gl show ?thesis
    by (auto simp: generate_images_def persist_def split: sum.splits prod.splits)
qed

lemma generate_images_imm_eqI:
  assumes "set prompts \<subseteq> range Imm"
    and "fst (generate_images model G D st h prompts) = st'"
    and "snd (snd (generate_images model G D st h prompts)) = r"
  shows "generate_images model G D st h prompts = (st', h, r)"
  using assms generate_images_store_imm[OF assms(1), of model G D st h]
  by (cases "generate_images model G D st h prompts") auto

lemma triple_eqI: "fst x = a \<Longrightarrow> fst (snd x) = b \<Longrightarrow> snd (snd x) = c \<Longrightarrow> x = (a, b, c)"
  by (cases x) auto

text \<open>
  Claim C1, as the code has it. When the driver returns, the two counts add up to the
  number of prompts, and the second count is that number less the first: it holds the
  items whose generation raised an \<^verbatim>\<open>OpenAIError\<close> together with the items skipped as
  malformed. The sum of generated, rejected and malformed items is the number of prompts
  for the items really rejected, not for the count returned.
\<close>

theorem generate_images_counts:
  assumes "generate_images model G D st h prompts = (st', h', Inr (g, r))"
  shows "g + r = length prompts \<and>
         r = rejected_count G h 0 prompts + malformed_count h prompts \<and>
         g + rejected_count G h 0 prompts + malformed_count h prompts = length prompts"
proof -
  from assms obtain infos where
    p: "persist (length prompts) (gen_loop model G D st h 0 infos 0 prompts) = (st', h', Inr (g, r))"
    by (auto simp: generate_images_def split: sum.splits)
  from p obtain st2 infos2 where
    gl: "gen_loop model G D st h 0 infos 0 prompts = (st2, h', Inr (infos2, g))"
    and r: "r = length prompts - g"
    by (auto simp: persist_def split: prod.splits sum.splits)
  from gen_loop_count[OF gl]
  have "g + rejected_count G h 0 prompts + malformed_count h prompts = length prompts"
    by simp
  with r show ?thesis by simp
qed

theorem generate_images_counts_witness:
  "generate_images ''OPENAI'' connection_lost download_ok empty_dir no_objects
     [Imm (JStr ''A''), Imm (JDict [(''text'', JStr ''B'')])]
     = (\<lparr>files = [], ledger = Some [], unsafe_dir = None\<rparr>, no_objects, Inr (0, 2)) \<and>
   rejected_count connection_lost no_objects 0
     [Imm (JStr ''A''), Imm (JDict [(''text'', JStr ''B'')])] = 1 \<and>
   malformed_count no_objects [Imm (JStr ''A''), Imm (JDict [(''text'', JStr ''B'')])] = 1"
proof -
  have "fst (generate_images ''OPENAI'' connection_lost download_ok empty_dir no_objects
               [Imm (JStr ''A''), Imm (JDict [(''text'', JStr ''B'')])])
          = \<lparr>files = [], ledger = Some [], unsafe_dir = None\<rparr>"
    by code_simp
  moreover have "fst (snd (generate_images ''OPENAI'' connection_lost download_ok empty_dir
               no_objects [Imm (JStr ''A''), Imm (JDict [(''text'', JStr ''B'')])]))
          = no_objects"
    by (rule generate_images_store_imm) auto
  moreover have "snd (snd (generate_images ''OPENAI'' connection_lost download_ok empty_dir
               no_objects [Imm (JStr ''A''), Imm (JDict [(''text'', JStr ''B'')])]))
          = Inr (0, 2)"
    by code_simp
  ultimately have run: "generate_images ''OPENAI'' connection_lost download_ok empty_dir no_objects
     [Imm (JStr ''A''), Imm (JDict [(''text'', JStr ''B'')])]
     = (\<lparr>files = [], ledger = Some [], unsafe_dir = None\<rparr>, no_objects, Inr (0, 2))"
    by (rule triple_eqI)
  note t = generate_images_counts[OF run]
  have m: "malformed_count no_objects [Imm (JStr ''A''), Imm (JDict [(''text'', JStr ''B'')])] = 1"
    by (simp add: malformed_count_def)
  from t have "2 = rejected_count connection_lost no_objects 0
                     [Imm (JStr ''A''), Imm (JDict [(''text'', JStr ''B'')])]
                 + malformed_count no_objects [Imm (JStr ''A''), Imm (JDict [(''text'', JStr ''B'')])]"
    by (rule conjunct2 [THEN conjunct1])
  with m have "rejected_count connection_lost no_objects 0
                 [Imm (JStr ''A''), Imm (JDict [(''text'', JStr ''B'')])] = 1"
    by linarith
  with run m show ?thesis by (intro conjI)
qed

text \<open>
  Claim C1 as stated fails. A dict without a \<^verbatim>\<open>prompt\<close> key is skipped as malformed and is
  in the second count all the same: generated, returned and malformed items add up to
  two for one prompt.
\<close>

theorem generate_images_counts_malformed:
  "snd (snd (generate_images ''OPENAI'' always_url download_ok empty_dir no_objects
               [Imm (JDict [(''text'', JStr ''B'')])]))
     = Inr (0, 1) \<and>
   malformed_count no_objects [Imm (JDict [(''text'', JStr ''B'')])] = 1 \<and>
   rejected_count always_url no_objects 0 [Imm (JDict [(''text'', JStr ''B'')])] = 0 \<and>
   0 + 1 + malformed_count no_objects [Imm (JDict [(''text'', JStr ''B'')])]
     \<noteq> length [Imm (JDict [(''text'', JStr ''B'')])]"
proof -
  have run: "snd (snd (generate_images ''OPENAI'' always_url download_ok empty_dir no_objects
                    [Imm (JDict [(''text'', JStr ''B'')])])) = Inr (0, 1)"
    by code_simp
  have m: "malformed_count no_objects [Imm (JDict [(''text'', JStr ''B'')])] = 1"
    by (simp add: malformed_count_def)
  have r: "rejected_count always_url no_objects 0 [Imm (JDict [(''text'', JStr ''B'')])] = 0"
    by simp
  have n: "0 + 1 + malformed_count no_objects [Imm (JDict [(''text'', JStr ''B'')])]
             \<noteq> length [Imm (JDict [(''text'', JStr ''B'')])]"
    unfolding m by simp
  from run m r n show ?thesis by (intro conjI)
qed

text \<open>
  Claim C4 at a transport fault of the \<^verbatim>\<open>openai\<close> client: the handler for a banned image
  catches it, the driver returns, and the prompt is in the count of rejections.
\<close>

theorem generate_images_transport_fault_counted:
  "generate_images ''OPENAI'' connection_lost download_ok empty_dir no_objects [Imm (JStr ''A'')] =
     (\<lparr>files = [], ledger = Some [], unsafe_dir = None\<rparr>, no_objects, Inr (0, 1))"
proof (rule triple_eqI)
  show "fst (generate_images ''OPENAI'' connection_lost download_ok empty_dir no_objects
               [Imm (JStr ''A'')])
          = \<lparr>files = [], ledger = Some [], unsafe_dir = None\<rparr>"
    by code_simp
  show "fst (snd (generate_images ''OPENAI'' connection_lost download_ok empty_dir no_objects
               [Imm (JStr ''A'')])) = no_objects"
    by (rule generate_images_store_imm) auto
  show "snd (snd (generate_images ''OPENAI'' connection_lost download_ok empty_dir no_objects
               [Imm (JStr ''A'')])) = Inr (0, 1)"
    by code_simp
qed

text \<open>
  Claim C7 at a run in which the first download does not give status 200: no file is
  written for the first image, the allocator gives index 0 again, and the ledger ends
  with two entries named \<^verbatim>\<open>image_0.png\<close>.
\<close>

theorem generate_images_name_reused:
  "generate_images ''OPENAI'' always_url first_download_404 empty_dir no_objects
     [Imm (JStr ''A''), Imm (JStr ''B'')] =
     (\<lparr>files = [''image_0.png''],
       ledger = Some [entry_of ''A'' ''image_0.png'', entry_of ''B'' ''image_0.png''],
       unsafe_dir = None\<rparr>, no_objects, Inr (2, 0))"
proof (rule triple_eqI)
  show "fst (generate_images ''OPENAI'' always_url first_download_404 empty_dir no_objects
               [Imm (JStr ''A''), Imm (JStr ''B'')])
          = \<lparr>files = [''image_0.png''],
             ledger = Some [entry_of ''A'' ''image_0.png'', entry_of ''B'' ''image_0.png''],
             unsafe_dir = None\<rparr>"
    by code_simp
  show "fst (snd (generate_images ''OPENAI'' always_url first_download_404 empty_dir no_objects
               [Imm (JStr ''A''), Imm (JStr ''B'')])) = no_objects"
    by (rule generate_images_store_imm) auto
  show "snd (snd (generate_images ''OPENAI'' always_url first_download_404 empty_dir no_objects
               [Imm (JStr ''A''), Imm (JStr ''B'')])) = Inr (2, 0)"
    by code_simp
qed

text \<open>
  Claim C10. With no prompts, and a ledger whose entries are image records, the driver
  rewrites the ledger as the entries whose backing file is present, in their order and
  unchanged; nothing else in the directory changes, no dict of the caller is written to
  and both counts are zero.
\<close>

theorem generate_images_no_prompts:
  assumes "ledger st = Some entries" and "\<forall>x \<in> set entries. image_record x"
  shows "generate_images model G D st h [] =
     (st\<lparr>ledger := Some (filter (backing_file_present st) entries)\<rparr>, h, Inr (0, 0))"
proof -
  have "reconcile (files st) entries = Inr (filter (backing_file_present st) entries)"
    using reconcile_records[OF assms(2)] unfolding backing_file_present_def by simp
  moreover have "map (deref h) (map Own xs) = xs" for xs
    by (induction xs) simp_all
  ultimately show ?thesis using assms(1) by (simp add: generate_images_def persist_def)
qed

theorem generate_images_no_prompts_witness:
  "ledger stale_entry_dir = Some [entry_of ''A'' ''image_0.png'', entry_of ''B'' ''image_1.png''] \<and>
   image_record (entry_of ''A'' ''image_0.png'') \<and> image_record (entry_of ''B'' ''image_1.png'') \<and>
   generate_images ''OPENAI'' always_url download_ok stale_entry_dir no_objects [] =
     (\<lparr>files = [''image_1.png''], ledger = Some [entry_of ''B'' ''image_1.png''],
       unsafe_dir = None\<rparr>, no_objects, Inr (0, 0))"
proof -
  have l: "ledger stale_entry_dir = Some [entry_of ''A'' ''image_0.png'', entry_of ''B'' ''image_1.png'']"
    by (simp add: stale_entry_dir_def)
  have a: "image_record (entry_of ''A'' ''image_0.png'')" by code_simp
  have b: "image_record (entry_of ''B'' ''image_1.png'')" by code_simp
  have r: "\<forall>x \<in> set [entry_of ''A'' ''image_0.png'', entry_of ''B'' ''image_1.png'']. image_record x"
    using a b by simp
  have f: "filter (backing_file_present stale_entry_dir)
             [entry_of ''A'' ''image_0.png'', entry_of ''B'' ''image_1.png'']
           = [entry_of ''B'' ''image_1.png'']"
    by code_simp
  from generate_images_no_prompts[OF l r, of "''OPENAI''" always_url download_ok no_objects]
  have "generate_images ''OPENAI'' always_url download_ok stale_entry_dir no_objects [] =
     (\<lparr>files = [''image_1.png''], ledger = Some [entry_of ''B'' ''image_1.png''],
       unsafe_dir = None\<rparr>, no_objects, Inr (0, 0))"
    unfolding f by (simp add: stale_entry_dir_def)
  with l a b show ?thesis by (intro conjI)
qed

text \<open>
  The store is a store of objects: a dict that occurs twice in the batch is written to
  twice, and both ledger entries show it as it is at the end.
\<close>

lemma generate_images_shared_dict:
  "fst (generate_images ''OPENAI'' always_url download_ok empty_dir prompt_A_store [Obj 0, Obj 0]) =
     \<lparr>files = [''image_0.png'', ''image_1.png''],
      ledger = Some [entry_of ''A'' ''image_1.png'', entry_of ''A'' ''image_1.png''],
      unsafe_dir = None\<rparr> \<and>
   snd (snd (generate_images ''OPENAI'' always_url download_ok empty_dir prompt_A_store
               [Obj 0, Obj 0])) = Inr (2, 0)"
  by code_simp

section \<open>The safety driver\<close>

text \<open>The driver never writes the ledger file.\<close>

lemma img_safety_check_ledger: "ledger (fst (img_safety_check C st)) = ledger st"
  by (auto simp: img_safety_check_def Let_def split: option.splits sum.splits prod.splits)

text \<open>
  Claim C2 at a directory with one image that the classifier calls unsafe: the loop
  puts the verdict into the entry in memory, the image is counted and copied, and the
  ledger on disk is the one from before, without the \<^verbatim>\<open>unsafe\<close> field.
\<close>

theorem img_safety_check_ledger_not_written:
  "safety_loop says_yes (one_image_dir\<lparr>unsafe_dir := Some []\<rparr>) 0
      [entry_of ''A'' ''image_0.png''] ([], 0, 0, []) =
     Inr ([entry_of ''A'' ''image_0.png'' @ [(''unsafe'', JBool True)]], 1, 0, [''image_0.png'']) \<and>
   img_safety_check says_yes one_image_dir =
     (\<lparr>files = [''image_0.png''],
       ledger = Some [entry_of ''A'' ''image_0.png''],
       unsafe_dir = Some [''image_0.png'']\<rparr>, Inr (Some (1, 0))) \<and>
   map_of (entry_of ''A'' ''image_0.png'') ''unsafe'' = None"
proof -
  have 1: "safety_loop says_yes (one_image_dir\<lparr>unsafe_dir := Some []\<rparr>) 0
      [entry_of ''A'' ''image_0.png''] ([], 0, 0, []) =
     Inr ([entry_of ''A'' ''image_0.png'' @ [(''unsafe'', JBool True)]], 1, 0, [''image_0.png''])"
    by code_simp
  have 2: "img_safety_check says_yes one_image_dir =
     (\<lparr>files = [''image_0.png''],
       ledger = Some [entry_of ''A'' ''image_0.png''],
       unsafe_dir = Some [''image_0.png'']\<rparr>, Inr (Some (1, 0)))"
    by code_simp
  have 3: "map_of (entry_of ''A'' ''image_0.png'') ''unsafe'' = None"
    by (simp add: entry_of_def)
  from 1 2 3 show ?thesis by (intro conjI)
qed

section \<open>The orchestrator\<close>







text \<open>
  Claim C6 at its corpus: the loop of line 112 calls \<^verbatim>\<open>pop\<close> on the string \<^verbatim>\<open>"B"\<close>, and
  \<^verbatim>\<open>main\<close> ends with an \<^verbatim>\<open>AttributeError\<close> before any arm is run.
\<close>

theorem main_bare_string_corpus:
  "prepare_arms 10 [JDict [(''prompt'', JStr ''A''), (''soft'', JStr ''A-softened'')], JStr ''B'']
     = Inl AttributeError \<and>
   main 10 [JDict [(''prompt'', JStr ''A''), (''soft'', JStr ''A-softened'')], JStr ''B''] env1 env2
     = Inl AttributeError"
proof -
  have "prepare_arms 10 [JDict [(''prompt'', JStr ''A''), (''soft'', JStr ''A-softened'')], JStr ''B'']
     = Inl AttributeError"
    by code_simp
  then show ?thesis by (simp add: main_def)
qed

section \<open>Float division\<close>

lemma bit_length_mono: "a \<le> b \<Longrightarrow> bit_length a \<le> bit_length b"
proof (induction a arbitrary: b rule: bit_length.induct)
  case (1 n)
  show ?case
  proof (cases "n = 0")
    case True
    then show ?thesis by (subst bit_length.simps) simp
  next
    case False
    with 1(2) have b: "b \<noteq> 0" by simp
    have "n div 2 \<le> b div 2" using 1(2) by (rule div_le_mono)
    from 1(1)[OF False this] have "bit_length (n div 2) \<le> bit_length (b div 2)" .
    then show ?thesis
      using False b by (subst bit_length.simps, subst (2) bit_length.simps) simp
  qed
qed

lemma round_half_even_close:
  assumes "0 < d"
  shows "\<bar>(of_nat (round_half_even n d) :: rat) - of_nat n / of_nat d\<bar> \<le> 1 / 2"
proof -
  let ?q = "n div d" and ?r = "n mod d"
  have d: "(of_nat d :: rat) > 0" using assms by simp
  have "n = ?q * d + ?r" by simp
  then have "(of_nat n :: rat) = of_nat ?q * of_nat d + of_nat ?r"
    by (metis of_nat_add of_nat_mult)
  then have x: "(of_nat n :: rat) / of_nat d = of_nat ?q + of_nat ?r / of_nat d"
    using d by (simp add: field_simps)
  have r0: "0 \<le> (of_nat ?r :: rat) / of_nat d" by simp
  have r1: "(of_nat ?r :: rat) / of_nat d < 1" using assms d by simp
  show ?thesis
  proof (cases "d < 2 * ?r \<or> (2 * ?r = d \<and> odd ?q)")
    case True
    then have m: "round_half_even n d = ?q + 1" by (simp add: round_half_even_def Let_def)
    from True have "d \<le> 2 * ?r" by auto
    then have "(of_nat d :: rat) \<le> 2 * of_nat ?r"
      by (metis of_nat_le_iff of_nat_mult of_nat_numeral)
    then have "1 / 2 \<le> (of_nat ?r :: rat) / of_nat d" using d by (simp add: field_simps)
    then show ?thesis unfolding m x using r1 by simp
  next
    case False
    then have m: "round_half_even n d = ?q" by (simp add: round_half_even_def Let_def)
    from False have "2 * ?r \<le> d" by auto
    then have "2 * (of_nat ?r :: rat) \<le> of_nat d"
      by (metis of_nat_le_iff of_nat_mult of_nat_numeral)
    then have "(of_nat ?r :: rat) / of_nat d \<le> 1 / 2" using d by (simp add: field_simps)
    then show ?thesis unfolding m x using r0 by simp
  qed
qed

lemma round_half_even_le:
  assumes "0 < d" and "n \<le> c * d"
  shows "round_half_even n d \<le> c"
proof -
  have q: "n div d \<le> c" using assms by (metis div_le_mono div_mult_self_is_m)
  show ?thesis
  proof (cases "n div d = c")
    case True
    have "n div d * d + n mod d = n" by simp
    with True assms(2) have "n mod d = 0" by simp
    with True assms(1) show ?thesis by (simp add: round_half_even_def Let_def)
  next
    case False
    with q have "n div d < c" by simp
    then show ?thesis by (simp add: round_half_even_def Let_def)
  qed
qed

lemma float_quotient_fraction:
  assumes b: "0 < b" and ab: "a \<le> b"
  shows "0 \<le> float_quotient a b \<and> float_quotient a b \<le> 1 \<and>
         \<bar>float_quotient a b - of_nat a / of_nat b\<bar> \<le> 1 / 2 ^ 53"
proof (cases "a = 0")
  case True
  then show ?thesis by (simp add: float_quotient_def)
next
  case False
  define k where "k = int (bit_length a) - int (bit_length b)"
  define fl where "fl = (if b * 2 ^ nat k \<le> a * 2 ^ nat (- k) then k else k - 1)"
  define S where "S = nat (min (52 - fl) 1074)"
  have "k \<le> 0" using bit_length_mono[OF ab] by (simp add: k_def)
  then have "fl \<le> 0" by (simp add: fl_def)
  then have sh: "52 \<le> min (52 - fl) 1074" by simp
  then have nneg: "nat (- min (52 - fl) 1074) = 0" by simp
  have S: "52 \<le> S" using sh by (simp add: S_def)
  define m where "m = round_half_even (a * 2 ^ S) b"
  have fq: "float_quotient a b = of_nat m / of_nat (2 ^ S)"
    using False unfolding float_quotient_def Let_def k_def[symmetric] fl_def[symmetric] nneg
    by (simp add: m_def S_def)
  have p: "(0::rat) < 2 ^ S" by simp
  have le: "m \<le> 2 ^ S"
    unfolding m_def using ab by (intro round_half_even_le[OF b]) (simp add: mult.commute)
  have 1: "0 \<le> float_quotient a b" unfolding fq by simp
  have 2: "float_quotient a b \<le> 1"
  proof -
    have "(of_nat m :: rat) \<le> of_nat (2 ^ S)" using le by (simp only: of_nat_le_iff)
    then show ?thesis unfolding fq using p by simp
  qed
  have c: "\<bar>(of_nat m :: rat) - of_nat (a * 2 ^ S) / of_nat b\<bar> \<le> 1 / 2"
    unfolding m_def by (rule round_half_even_close[OF b])
  have b': "(of_nat b :: rat) > 0" using b by simp
  have "float_quotient a b - of_nat a / of_nat b
          = (of_nat m - of_nat (a * 2 ^ S) / of_nat b) / 2 ^ S"
    unfolding fq using b' by (simp add: field_simps)
  then have "\<bar>float_quotient a b - of_nat a / of_nat b\<bar>
          = \<bar>(of_nat m :: rat) - of_nat (a * 2 ^ S) / of_nat b\<bar> / 2 ^ S"
    by (simp add: abs_divide)
  also have "\<dots> \<le> (1 / 2) / 2 ^ S"
    using c by (rule divide_right_mono) simp
  also have "\<dots> = 1 / 2 ^ (Suc S)" by simp
  also have "\<dots> \<le> 1 / 2 ^ 53"
  proof -
    have "(2::rat) ^ 53 \<le> 2 ^ Suc S" using S by (intro power_increasing) simp_all
    then show ?thesis by (simp add: frac_le del: power_Suc)
  qed
  finally have 3: "\<bar>float_quotient a b - of_nat a / of_nat b\<bar> \<le> 1 / 2 ^ 53" .
  from 1 2 3 show ?thesis by (intro conjI)
qed

lemma py_truediv_fraction:
  assumes "0 < b" and "a \<le> b"
  shows "py_truediv a b = Inr (float_quotient a b)"
proof -
  have "float_quotient a b \<le> 1" using float_quotient_fraction[OF assms] by blast
  moreover have "(1::rat) < 2 ^ 1024" by simp
  ultimately have "\<not> 2 ^ 1024 \<le> float_quotient a b" by linarith
  then show ?thesis using assms(1) by (simp add: py_truediv_def)
qed

lemma percentages_triple:
  "percentages [n, s, u] =
     (if n + s + u = 0 then Inl ZeroDivisionError
      else Inr [float_quotient n (n + s + u), float_quotient s (n + s + u),
                float_quotient u (n + s + u)])"
proof -
  define t where "t = n + s + u"
  have sum: "sum_list [n, s, u] = t" by (simp add: t_def)
  have p: "percentages [n, s, u] = map_exc (\<lambda>x. py_truediv x t) [n, s, u]"
    unfolding percentages_def sum ..
  have "percentages [n, s, u] =
     (if t = 0 then Inl ZeroDivisionError
      else Inr [float_quotient n t, float_quotient s t, float_quotient u t])"
  proof (cases "t = 0")
    case True
    then show ?thesis unfolding p by (simp add: py_truediv_def)
  next
    case False
    then have t: "0 < t" by simp
    have le: "n \<le> t" "s \<le> t" "u \<le> t" by (simp_all add: t_def)
    show ?thesis
      unfolding p using False
      by (simp add: py_truediv_fraction[OF t le(1)] py_truediv_fraction[OF t le(2)]
          py_truediv_fraction[OF t le(3)])
  qed
  then show ?thesis unfolding t_def .
qed

lemma run_model_returns:
  assumes "generate_images model G D st h prompts = (st1, h1, Inr (g, n))"
    and "img_safety_check C st1 = (st2, Inr (Some (u, s)))"
  shows "run_model model G D C st h prompts = (st2, h1, percentages [n, s, u])"
  using assms by (simp add: run_model_def)

text \<open>What \<^verbatim>\<open>main\<close> returns once the two prompt lists are built.\<close>

lemma main_arms:
  assumes "prepare_arms num corpus = Inr (pa, pb)"
  shows "main num corpus (Ga, Da, Ca) (Gb, Db, Cb) =
     (case snd (snd (run_model ''OPENAI'' Ga Da Ca empty_dir no_objects (map Imm pa))) of
        Inl e \<Rightarrow> Inl e
      | Inr a \<Rightarrow>
          (case snd (snd (run_model ''OPENAI'' Gb Db Cb empty_dir no_objects (map Imm pb))) of
             Inl e \<Rightarrow> Inl e
           | Inr b \<Rightarrow> Inr (b, a)))"
  using assms by (simp add: main_def)

lemma float_quotient_values:
  "float_quotient 0 b = 0" "float_quotient 1 1 = 1" "float_quotient 1 2 = 1 / 2"
  by (simp_all add: float_quotient_def round_half_even_def bit_length.simps Let_def)

lemma float_quotient_values_Suc:
  "float_quotient (Suc 0) (Suc 0) = 1" "float_quotient (Suc 0) (Suc (Suc 0)) = 1 / 2"
proof -
  show "float_quotient (Suc 0) (Suc 0) = 1"
    using float_quotient_values(2) by (simp only: One_nat_def)
  have "Suc (Suc 0) = 2" by simp
  then show "float_quotient (Suc 0) (Suc (Suc 0)) = 1 / 2"
    using float_quotient_values(3) by (simp only: One_nat_def)
qed

text \<open>
  Claim C9, as the code has it. When both drivers return, the first count of the triple
  is the second count of the generation driver, which holds the malformed items with
  the rejected ones. \<^verbatim>\<open>run_model\<close> raises a \<^verbatim>\<open>ZeroDivisionError\<close> when the three counts
  add up to zero and otherwise returns the three floats, each within \<open>1 / 2 ^ 53\<close> of
  the count divided by the sum. \<^verbatim>\<open>main\<close> ends with the exception of the first arm that
  raises one, and with the triples of both arms when none does.
\<close>

theorem run_model_percentages:
  assumes gen: "generate_images model G D st h prompts = (st1, h1, Inr (g, n))"
    and saf: "img_safety_check C st1 = (st2, Inr (Some (u, s)))"
  shows "n = rejected_count G h 0 prompts + malformed_count h prompts \<and>
     run_model model G D C st h prompts =
       (st2, h1,
        if n + s + u = 0 then Inl ZeroDivisionError
        else Inr [float_quotient n (n + s + u), float_quotient s (n + s + u),
                  float_quotient u (n + s + u)]) \<and>
     (0 < n + s + u \<longrightarrow>
        \<bar>float_quotient n (n + s + u) - of_nat n / of_nat (n + s + u)\<bar> \<le> 1 / 2 ^ 53 \<and>
        \<bar>float_quotient s (n + s + u) - of_nat s / of_nat (n + s + u)\<bar> \<le> 1 / 2 ^ 53 \<and>
        \<bar>float_quotient u (n + s + u) - of_nat u / of_nat (n + s + u)\<bar> \<le> 1 / 2 ^ 53) \<and>
     (prepare_arms num corpus = Inr (pa, pb) \<longrightarrow>
        (\<forall>e. snd (snd (run_model ''OPENAI'' Ga Da Ca empty_dir no_objects (map Imm pa))) = Inl e
              \<longrightarrow> main num corpus (Ga, Da, Ca) (Gb, Db, Cb) = Inl e) \<and>
        (\<forall>a e. snd (snd (run_model ''OPENAI'' Ga Da Ca empty_dir no_objects (map Imm pa))) = Inr a \<and>
                snd (snd (run_model ''OPENAI'' Gb Db Cb empty_dir no_objects (map Imm pb))) = Inl e
              \<longrightarrow> main num corpus (Ga, Da, Ca) (Gb, Db, Cb) = Inl e) \<and>
        (\<forall>a b. snd (snd (run_model ''OPENAI'' Ga Da Ca empty_dir no_objects (map Imm pa))) = Inr a \<and>
                snd (snd (run_model ''OPENAI'' Gb Db Cb empty_dir no_objects (map Imm pb))) = Inr b
              \<longrightarrow> main num corpus (Ga, Da, Ca) (Gb, Db, Cb) = Inr (b, a)))"
proof -
  have 1: "n = rejected_count G h 0 prompts + malformed_count h prompts"
  proof -
    from gen obtain infos where
      p: "persist (length prompts) (gen_loop model G D st h 0 infos 0 prompts)
            = (st1, h1, Inr (g, n))"
      by (auto simp: generate_images_def split: sum.splits)
    from p obtain st' infos' where
      gl: "gen_loop model G D st h 0 infos 0 prompts = (st', h1, Inr (infos', g))"
      and n: "n = length prompts - g"
      by (auto simp: persist_def split: prod.splits sum.splits)
    from gen_loop_count[OF gl] n show ?thesis by simp
  qed
  have 2: "run_model model G D C st h prompts =
       (st2, h1,
        if n + s + u = 0 then Inl ZeroDivisionError
        else Inr [float_quotient n (n + s + u), float_quotient s (n + s + u),
                  float_quotient u (n + s + u)])"
    unfolding run_model_returns[OF gen saf] percentages_triple ..
  have 3: "\<bar>float_quotient n (n + s + u) - of_nat n / of_nat (n + s + u)\<bar> \<le> 1 / 2 ^ 53 \<and>
        \<bar>float_quotient s (n + s + u) - of_nat s / of_nat (n + s + u)\<bar> \<le> 1 / 2 ^ 53 \<and>
        \<bar>float_quotient u (n + s + u) - of_nat u / of_nat (n + s + u)\<bar> \<le> 1 / 2 ^ 53"
    if t: "0 < n + s + u"
    using float_quotient_fraction[OF t, of n] float_quotient_fraction[OF t, of s]
      float_quotient_fraction[OF t, of u] by simp
  have 4: "(\<forall>e. snd (snd (run_model ''OPENAI'' Ga Da Ca empty_dir no_objects (map Imm pa))) = Inl e
              \<longrightarrow> main num corpus (Ga, Da, Ca) (Gb, Db, Cb) = Inl e) \<and>
        (\<forall>a e. snd (snd (run_model ''OPENAI'' Ga Da Ca empty_dir no_objects (map Imm pa))) = Inr a \<and>
                snd (snd (run_model ''OPENAI'' Gb Db Cb empty_dir no_objects (map Imm pb))) = Inl e
              \<longrightarrow> main num corpus (Ga, Da, Ca) (Gb, Db, Cb) = Inl e) \<and>
        (\<forall>a b. snd (snd (run_model ''OPENAI'' Ga Da Ca empty_dir no_objects (map Imm pa))) = Inr a \<and>
                snd (snd (run_model ''OPENAI'' Gb Db Cb empty_dir no_objects (map Imm pb))) = Inr b
              \<longrightarrow> main num corpus (Ga, Da, Ca) (Gb, Db, Cb) = Inr (b, a))"
    if arms: "prepare_arms num corpus = Inr (pa, pb)"
    unfolding main_arms[OF arms] by simp
  from 1 2 3 4 show ?thesis by blast
qed

theorem run_model_percentages_witness:
  "prepare_arms 10 [JDict [(''prompt'', JStr ''A''), (''soft'', JStr ''A-softened'')],
                    JDict [(''prompt'', JStr ''B'')]]
     = Inr ([JDict [(''prompt'', JStr ''A'')], JDict [(''prompt'', JStr ''B'')]],
            [JDict [(''prompt'', JStr ''A-softened'')], JDict [(''prompt'', JStr ''B'')]]) \<and>
   generate_images ''OPENAI'' rejects_B download_ok empty_dir no_objects
       (map Imm [JDict [(''prompt'', JStr ''A'')], JDict [(''prompt'', JStr ''B'')]])
     = (image_dir_of ''A'', no_objects, Inr (1, 1)) \<and>
   img_safety_check says_no (image_dir_of ''A'')
     = ((image_dir_of ''A'')\<lparr>unsafe_dir := Some []\<rparr>, Inr (Some (0, 1))) \<and>
   run_model ''OPENAI'' rejects_B download_ok says_no empty_dir no_objects
       (map Imm [JDict [(''prompt'', JStr ''A'')], JDict [(''prompt'', JStr ''B'')]])
     = ((image_dir_of ''A'')\<lparr>unsafe_dir := Some []\<rparr>, no_objects, Inr [1 / 2, 1 / 2, 0]) \<and>
   main 10 [JDict [(''prompt'', JStr ''A''), (''soft'', JStr ''A-softened'')],
            JDict [(''prompt'', JStr ''B'')]]
        (rejects_B, download_ok, says_no) (rejects_B, download_ok, says_no)
     = Inr ([1 / 2, 1 / 2, 0], [1 / 2, 1 / 2, 0]) \<and>
   main 10 [] (always_url, download_ok, says_yes) (always_url, download_ok, says_yes)
     = Inl ZeroDivisionError \<and>
   main 10 [JDict [(''prompt'', JStr ''A'')]]
        (connection_lost, download_ok, says_yes) (always_url, download_ok, says_maybe)
     = Inl ZeroDivisionError"
proof -
  let ?c = "[JDict [(''prompt'', JStr ''A''), (''soft'', JStr ''A-softened'')],
             JDict [(''prompt'', JStr ''B'')]]"
  let ?pa = "[JDict [(''prompt'', JStr ''A'')], JDict [(''prompt'', JStr ''B'')]]"
  let ?pb = "[JDict [(''prompt'', JStr ''A-softened'')], JDict [(''prompt'', JStr ''B'')]]"
  let ?one = "[JDict [(''prompt'', JStr ''A'')]]"
  have arms: "prepare_arms 10 ?c = Inr (?pa, ?pb)" by code_simp
  have arms0: "prepare_arms 10 [] = Inr ([], [])" by code_simp
  have arms1: "prepare_arms 10 ?one = Inr (?one, ?one)" by code_simp
  have gen_a: "generate_images ''OPENAI'' rejects_B download_ok empty_dir no_objects (map Imm ?pa)
                 = (image_dir_of ''A'', no_objects, Inr (1, 1))"
  proof (rule generate_images_imm_eqI)
    show "set (map Imm ?pa) \<subseteq> range Imm" by auto
    show "fst (generate_images ''OPENAI'' rejects_B download_ok empty_dir no_objects (map Imm ?pa))
            = image_dir_of ''A''"
      by code_simp
    show "snd (snd (generate_images ''OPENAI'' rejects_B download_ok empty_dir no_objects
                      (map Imm ?pa))) = Inr (1, 1)"
      by code_simp
  qed
  have saf_a: "img_safety_check says_no (image_dir_of ''A'')
                 = ((image_dir_of ''A'')\<lparr>unsafe_dir := Some []\<rparr>, Inr (Some (0, 1)))"
    by code_simp
  note t_a = run_model_percentages[OF gen_a saf_a, of 10 ?c ?pa ?pb
      rejects_B download_ok says_no rejects_B download_ok says_no]
  from t_a[THEN conjunct2, THEN conjunct1]
  have run_a: "run_model ''OPENAI'' rejects_B download_ok says_no empty_dir no_objects (map Imm ?pa)
     = ((image_dir_of ''A'')\<lparr>unsafe_dir := Some []\<rparr>, no_objects, Inr [1 / 2, 1 / 2, 0])"
    by (simp add: float_quotient_values float_quotient_values_Suc)
  have gen_b: "generate_images ''OPENAI'' rejects_B download_ok empty_dir no_objects (map Imm ?pb)
                 = (image_dir_of ''A-softened'', no_objects, Inr (1, 1))"
  proof (rule generate_images_imm_eqI)
    show "set (map Imm ?pb) \<subseteq> range Imm" by auto
    show "fst (generate_images ''OPENAI'' rejects_B download_ok empty_dir no_objects (map Imm ?pb))
            = image_dir_of ''A-softened''"
      by code_simp
    show "snd (snd (generate_images ''OPENAI'' rejects_B download_ok empty_dir no_objects
                      (map Imm ?pb))) = Inr (1, 1)"
      by code_simp
  qed
  have saf_b: "img_safety_check says_no (image_dir_of ''A-softened'')
                 = ((image_dir_of ''A-softened'')\<lparr>unsafe_dir := Some []\<rparr>, Inr (Some (0, 1)))"
    by code_simp
  from run_model_percentages[OF gen_b saf_b, THEN conjunct2, THEN conjunct1]
  have run_b: "run_model ''OPENAI'' rejects_B download_ok says_no empty_dir no_objects (map Imm ?pb)
     = ((image_dir_of ''A-softened'')\<lparr>unsafe_dir := Some []\<rparr>, no_objects,
        Inr [1 / 2, 1 / 2, 0])"
    by (simp add: float_quotient_values float_quotient_values_Suc)
  from t_a[THEN conjunct2, THEN conjunct2, THEN conjunct2] arms
  have "\<forall>a b. snd (snd (run_model ''OPENAI'' rejects_B download_ok says_no empty_dir no_objects
                         (map Imm ?pa))) = Inr a \<and>
               snd (snd (run_model ''OPENAI'' rejects_B download_ok says_no empty_dir no_objects
                         (map Imm ?pb))) = Inr b
          \<longrightarrow> main 10 ?c (rejects_B, download_ok, says_no) (rejects_B, download_ok, says_no)
                = Inr (b, a)"
    by blast
  then have main_ab: "main 10 ?c (rejects_B, download_ok, says_no) (rejects_B, download_ok, says_no)
     = Inr ([1 / 2, 1 / 2, 0], [1 / 2, 1 / 2, 0])"
    unfolding run_a run_b by simp
  have gen_0: "generate_images ''OPENAI'' always_url download_ok empty_dir no_objects (map Imm [])
                 = (written_empty_dir, no_objects, Inr (0, 0))"
  proof (rule generate_images_imm_eqI)
    show "set (map Imm []) \<subseteq> range Imm" by auto
    show "fst (generate_images ''OPENAI'' always_url download_ok empty_dir no_objects (map Imm []))
            = written_empty_dir"
      by code_simp
    show "snd (snd (generate_images ''OPENAI'' always_url download_ok empty_dir no_objects
                      (map Imm []))) = Inr (0, 0)"
      by code_simp
  qed
  have saf_0: "img_safety_check says_yes written_empty_dir
                 = (written_empty_dir\<lparr>unsafe_dir := Some []\<rparr>, Inr (Some (0, 0)))"
    by code_simp
  note t_0 = run_model_percentages[OF gen_0 saf_0, of 10 "[]" "[]" "[]"
      always_url download_ok says_yes always_url download_ok says_yes]
  from t_0[THEN conjunct2, THEN conjunct1]
  have run_0: "snd (snd (run_model ''OPENAI'' always_url download_ok says_yes empty_dir no_objects
                           (map Imm []))) = Inl ZeroDivisionError"
    by simp
  from t_0[THEN conjunct2, THEN conjunct2, THEN conjunct2] arms0
  have "\<forall>e. snd (snd (run_model ''OPENAI'' always_url download_ok says_yes empty_dir no_objects
                         (map Imm []))) = Inl e
          \<longrightarrow> main 10 [] (always_url, download_ok, says_yes) (always_url, download_ok, says_yes)
                = Inl e"
    by blast
  with run_0 have main_0: "main 10 [] (always_url, download_ok, says_yes)
      (always_url, download_ok, says_yes) = Inl ZeroDivisionError"
    by blast
  have gen_1: "generate_images ''OPENAI'' connection_lost download_ok empty_dir no_objects
                 (map Imm ?one) = (written_empty_dir, no_objects, Inr (0, 1))"
  proof (rule generate_images_imm_eqI)
    show "set (map Imm ?one) \<subseteq> range Imm" by auto
    show "fst (generate_images ''OPENAI'' connection_lost download_ok empty_dir no_objects
                 (map Imm ?one)) = written_empty_dir"
      by code_simp
    show "snd (snd (generate_images ''OPENAI'' connection_lost download_ok empty_dir no_objects
                      (map Imm ?one))) = Inr (0, 1)"
      by code_simp
  qed
  note t_1 = run_model_percentages[OF gen_1 saf_0, of 10 ?one ?one ?one
      connection_lost download_ok says_yes always_url download_ok says_maybe]
  from t_1[THEN conjunct2, THEN conjunct1]
  have run_1: "snd (snd (run_model ''OPENAI'' connection_lost download_ok says_yes empty_dir
                           no_objects (map Imm ?one))) = Inr [1, 0, 0]"
    by (simp add: float_quotient_values float_quotient_values_Suc)
  have gen_2: "generate_images ''OPENAI'' always_url download_ok empty_dir no_objects
                 (map Imm ?one) = (image_dir_of ''A'', no_objects, Inr (1, 0))"
  proof (rule generate_images_imm_eqI)
    show "set (map Imm ?one) \<subseteq> range Imm" by auto
    show "fst (generate_images ''OPENAI'' always_url download_ok empty_dir no_objects
                 (map Imm ?one)) = image_dir_of ''A''"
      by code_simp
    show "snd (snd (generate_images ''OPENAI'' always_url download_ok empty_dir no_objects
                      (map Imm ?one))) = Inr (1, 0)"
      by code_simp
  qed
  have saf_2: "img_safety_check says_maybe (image_dir_of ''A'')
                 = ((image_dir_of ''A'')\<lparr>unsafe_dir := Some []\<rparr>, Inr (Some (0, 0)))"
    by code_simp
  from run_model_percentages[OF gen_2 saf_2, THEN conjunct2, THEN conjunct1]
  have run_2: "snd (snd (run_model ''OPENAI'' always_url download_ok says_maybe empty_dir
                           no_objects (map Imm ?one))) = Inl ZeroDivisionError"
    by simp
  from t_1[THEN conjunct2, THEN conjunct2, THEN conjunct2] arms1
  have "\<forall>a e. snd (snd (run_model ''OPENAI'' connection_lost download_ok says_yes empty_dir
                           no_objects (map Imm ?one))) = Inr a \<and>
               snd (snd (run_model ''OPENAI'' always_url download_ok says_maybe empty_dir
                           no_objects (map Imm ?one))) = Inl e
          \<longrightarrow> main 10 ?one (connection_lost, download_ok, says_yes)
                  (always_url, download_ok, says_maybe) = Inl e"
    by blast
  with run_1 run_2 have main_1: "main 10 ?one (connection_lost, download_ok, says_yes)
      (always_url, download_ok, says_maybe) = Inl ZeroDivisionError"
    by blast
  from arms gen_a saf_a run_a main_ab main_0 main_1 show ?thesis by (intro conjI)
qed

text \<open>
  Claim C9 as stated fails. In a cell of one malformed item nothing is rejected and
  nothing is classified, so that rejected, safe and unsafe add up to zero; the item is
  in the second count of the generation driver all the same, and \<^verbatim>\<open>run_model\<close> returns
  the triple 1, 0, 0 instead of raising.
\<close>

theorem run_model_malformed_item:
  "rejected_count always_url no_objects 0 [Imm (JDict [(''text'', JStr ''B'')])] = 0 \<and>
   generate_images ''OPENAI'' always_url download_ok empty_dir no_objects
       [Imm (JDict [(''text'', JStr ''B'')])]
     = (written_empty_dir, no_objects, Inr (0, 1)) \<and>
   img_safety_check says_yes written_empty_dir
     = (written_empty_dir\<lparr>unsafe_dir := Some []\<rparr>, Inr (Some (0, 0))) \<and>
   run_model ''OPENAI'' always_url download_ok says_yes empty_dir no_objects
       [Imm (JDict [(''text'', JStr ''B'')])]
     = (written_empty_dir\<lparr>unsafe_dir := Some []\<rparr>, no_objects, Inr [1, 0, 0])"
proof -
  have r: "rejected_count always_url no_objects 0 [Imm (JDict [(''text'', JStr ''B'')])] = 0"
    by simp
  have gen: "generate_images ''OPENAI'' always_url download_ok empty_dir no_objects
       [Imm (JDict [(''text'', JStr ''B'')])]
     = (written_empty_dir, no_objects, Inr (0, 1))"
  proof (rule generate_images_imm_eqI)
    show "set [Imm (JDict [(''text'', JStr ''B'')])] \<subseteq> range Imm" by auto
    show "fst (generate_images ''OPENAI'' always_url download_ok empty_dir no_objects
                 [Imm (JDict [(''text'', JStr ''B'')])]) = written_empty_dir"
      by code_simp
    show "snd (snd (generate_images ''OPENAI'' always_url download_ok empty_dir no_objects
                      [Imm (JDict [(''text'', JStr ''B'')])])) = Inr (0, 1)"
      by code_simp
  qed
  have saf: "img_safety_check says_yes written_empty_dir
     = (written_empty_dir\<lparr>unsafe_dir := Some []\<rparr>, Inr (Some (0, 0)))"
    by code_simp
  have "percentages [1, 0, 0] = Inr [1, 0, 0]"
    unfolding percentages_triple by (simp add: float_quotient_values float_quotient_values_Suc)
  with run_model_returns[OF gen saf]
  have run: "run_model ''OPENAI'' always_url download_ok says_yes empty_dir no_objects
       [Imm (JDict [(''text'', JStr ''B'')])]
     = (written_empty_dir\<lparr>unsafe_dir := Some []\<rparr>, no_objects, Inr [1, 0, 0])"
    by simp
  from r gen saf run show ?thesis by (intro conjI)
qed

end
